theory Spec2Isabelle
  imports Main "HOL-Library.Word" "HOL-Library.Multiset" "HOL-Library.AList"
begin

section \<open>Strings\<close>

text \<open>
  A JavaScript string is a sequence of 16-bit code units. String methods and regular
  expressions without the \<open>u\<close> flag work on code units, so the model does too.
\<close>

type_synonym jsstring = "16 word list"

definition str :: "string \<Rightarrow> jsstring" where
  "str s = map of_char s"

text \<open>
  \<open>String.prototype.trim\<close> removes the code units of the ECMAScript productions
  WhiteSpace and LineTerminator from both ends.
\<close>

definition isWhiteSpace :: "16 word \<Rightarrow> bool" where
  "isWhiteSpace c \<longleftrightarrow>
     c = 0x0009 \<or> c = 0x000A \<or> c = 0x000B \<or> c = 0x000C \<or> c = 0x000D \<or> c = 0x0020 \<or>
     c = 0x00A0 \<or> c = 0x1680 \<or> (0x2000 \<le> c \<and> c \<le> 0x200A) \<or> c = 0x2028 \<or>
     c = 0x2029 \<or> c = 0x202F \<or> c = 0x205F \<or> c = 0x3000 \<or> c = 0xFEFF"

definition trim :: "jsstring \<Rightarrow> jsstring" where
  "trim s = rev (dropWhile isWhiteSpace (rev (dropWhile isWhiteSpace s)))"

definition startsWith :: "jsstring \<Rightarrow> jsstring \<Rightarrow> bool" where
  "startsWith s p \<longleftrightarrow> take (length p) s = p"

section \<open>Content sanitizer (lib/sanitize)\<close>

text \<open>\<open>CONTROL_CHARACTERS_REGEX = /[\u0000-\u001F\u007F]/g\<close>\<close>

definition CONTROL_CHARACTERS_REGEX :: "16 word \<Rightarrow> bool" where
  "CONTROL_CHARACTERS_REGEX c \<longleftrightarrow> c \<le> 0x001F \<or> c = 0x007F"

text \<open>The character class \<open>/[<>]/g\<close>.\<close>

definition angleBracket :: "16 word \<Rightarrow> bool" where
  "angleBracket c \<longleftrightarrow> c = 0x003C \<or> c = 0x003E"

text \<open>Replacing every match of a one-character class by the empty string is a filter.\<close>

definition sanitizeMessageContent :: "jsstring \<Rightarrow> jsstring" where
  "sanitizeMessageContent rawContent =
     trim (filter (\<lambda>c. \<not> angleBracket c)
            (filter (\<lambda>c. \<not> CONTROL_CHARACTERS_REGEX c) rawContent))"

text \<open>The C1 control characters are the code units U+0080 to U+009F.\<close>

definition isC1Control :: "16 word \<Rightarrow> bool" where
  "isC1Control c \<longleftrightarrow> 0x0080 \<le> c \<and> c \<le> 0x009F"

section \<open>Presence registry (lib/socket)\<close>

text \<open>
  \<open>onlineUsers\<close> is a \<open>Map<string, Set<string>>\<close> from user id to the ids of the
  user's live sockets. The map is an association list in insertion order
  (\<open>Map.get\<close> is \<^const>\<open>map_of\<close>, \<open>Map.set\<close> is \<^const>\<open>AList.update\<close>, which replaces in
  place or appends, \<open>Map.delete\<close> is \<^const>\<open>AList.delete\<close>); the socket sets are sets, of
  which the code only observes membership and emptiness.
\<close>

type_synonym onlineUsersMap = "(jsstring \<times> jsstring set) list"

definition addOnlineUser :: "onlineUsersMap \<Rightarrow> jsstring \<Rightarrow> jsstring \<Rightarrow> onlineUsersMap" where
  "addOnlineUser onlineUsers userId socketId =
     (case map_of onlineUsers userId of
        None \<Rightarrow> AList.update userId {socketId} onlineUsers
      | Some existing \<Rightarrow> AList.update userId (insert socketId existing) onlineUsers)"

text \<open>Returns the new registry and the flag the source returns.\<close>

definition removeOnlineUser ::
  "onlineUsersMap \<Rightarrow> jsstring \<Rightarrow> jsstring \<Rightarrow> onlineUsersMap \<times> bool" where
  "removeOnlineUser onlineUsers userId socketId =
     (case map_of onlineUsers userId of
        None \<Rightarrow> (onlineUsers, False)
      | Some existing \<Rightarrow>
          if existing - {socketId} = {}
          then (AList.delete userId onlineUsers, True)
          else (AList.update userId (existing - {socketId}) onlineUsers, False))"

definition getOnlineUserIds :: "onlineUsersMap \<Rightarrow> jsstring list" where
  "getOnlineUserIds onlineUsers = map fst onlineUsers"

text \<open>
  \<open>emitPresence\<close> broadcasts an event with the user id and the current list of online
  user ids to every socket. The handlers below return the events they broadcast.
\<close>

datatype serverEvent =
    user_online jsstring "jsstring list"
  | user_offline jsstring "jsstring list"

text \<open>
  The presence part of the \<open>connection\<close> handler of \<open>initSocketServer\<close>, for a socket
  \<open>socketId\<close> whose handshake verified the principal \<open>sub\<close>, and of its \<open>disconnect\<close>
  handler. Joining the mailbox group does not touch the registry and is left out.
\<close>

definition onConnection ::
  "onlineUsersMap \<Rightarrow> jsstring \<Rightarrow> jsstring \<Rightarrow> onlineUsersMap \<times> serverEvent list" where
  "onConnection onlineUsers sub socketId =
     (let onlineUsers' = addOnlineUser onlineUsers sub socketId
      in (onlineUsers', [user_online sub (getOnlineUserIds onlineUsers')]))"

definition onDisconnect ::
  "onlineUsersMap \<Rightarrow> jsstring \<Rightarrow> jsstring \<Rightarrow> onlineUsersMap \<times> serverEvent list" where
  "onDisconnect onlineUsers sub socketId =
     (let removed = removeOnlineUser onlineUsers sub socketId;
          onlineUsers' = fst removed;
          becameOffline = snd removed
      in (onlineUsers',
          if becameOffline then [user_offline sub (getOnlineUserIds onlineUsers')] else []))"

datatype socketEvent = connection jsstring jsstring | disconnect jsstring jsstring

fun handleSocketEvent ::
  "onlineUsersMap \<Rightarrow> socketEvent \<Rightarrow> onlineUsersMap \<times> serverEvent list" where
  "handleSocketEvent m (connection sub socketId) = onConnection m sub socketId"
| "handleSocketEvent m (disconnect sub socketId) = onDisconnect m sub socketId"

text \<open>
  The registry starts empty; the reachable registries are those some sequence of
  \<open>connection\<close> and \<open>disconnect\<close> events leads to.
\<close>

definition reached :: "socketEvent list \<Rightarrow> onlineUsersMap" where
  "reached evs = foldl (\<lambda>m e. fst (handleSocketEvent m e)) [] evs"

text \<open>The live connections of a user: the registered set, empty without an entry.\<close>

definition connectionsOf :: "onlineUsersMap \<Rightarrow> jsstring \<Rightarrow> jsstring set" where
  "connectionsOf onlineUsers userId =
     (case map_of onlineUsers userId of None \<Rightarrow> {} | Some existing \<Rightarrow> existing)"

definition noEmptySets :: "onlineUsersMap \<Rightarrow> bool" where
  "noEmptySets m \<longleftrightarrow> (\<forall>u. map_of m u \<noteq> Some {})"

section \<open>Payloads and validators (lib/validators)\<close>

text \<open>
  A payload arrives as untyped JSON. Of the value under a key the schemas only ask whether
  it is absent, a string, or anything else.
\<close>

datatype jsvalue = Undefined | Str jsstring | NonString

text \<open>
  A JSON object, by the keys the message schemas and the dispatch read; any other key is
  stripped. The socket events are taken with an object for their payload.
\<close>

record messagePayload =
  roomId :: jsvalue
  receiverId :: jsvalue
  content :: jsvalue
  fileUrl :: jsvalue

text \<open>
  \<open>z.string()\<close> with further checks, followed by \<open>.optional()\<close>. A required string is
  matched on directly in the schemas.
\<close>

definition optionalString :: "(jsstring \<Rightarrow> bool) \<Rightarrow> jsvalue \<Rightarrow> bool" where
  "optionalString checks v =
     (case v of Undefined \<Rightarrow> True | Str s \<Rightarrow> checks s | NonString \<Rightarrow> False)"

definition parsedString :: "jsvalue \<Rightarrow> jsstring option" where
  "parsedString v = (case v of Str s \<Rightarrow> Some s | _ \<Rightarrow> None)"

text \<open>JavaScript truthiness of an optional string: present and not empty.\<close>

definition truthy :: "jsstring option \<Rightarrow> bool" where
  "truthy v = (case v of None \<Rightarrow> False | Some s \<Rightarrow> s \<noteq> [])"

text \<open>
  \<open>baseMessageSchema\<close>: \<open>content: z.string().max(2000).optional()\<close> and
  \<open>fileUrl: z.string().max(500).startsWith("/uploads/").optional()\<close>.
\<close>

definition baseMessageSchema :: "messagePayload \<Rightarrow> bool" where
  "baseMessageSchema p \<longleftrightarrow>
     optionalString (\<lambda>s. length s \<le> 2000) (content p) \<and>
     optionalString (\<lambda>s. length s \<le> 500 \<and> startsWith s (str ''/uploads/'')) (fileUrl p)"

text \<open>The refinement \<open>Boolean(value.content?.trim() || value.fileUrl)\<close> of both send schemas.\<close>

definition contentOrFileUrl :: "jsstring option \<Rightarrow> jsstring option \<Rightarrow> bool" where
  "contentOrFileUrl c f \<longleftrightarrow> truthy (map_option trim c) \<or> truthy f"

record roomMessageData =
  rm_roomId :: jsstring
  rm_content :: "jsstring option"
  rm_fileUrl :: "jsstring option"

record privateMessageData =
  pm_receiverId :: jsstring
  pm_content :: "jsstring option"
  pm_fileUrl :: "jsstring option"

text \<open>
  \<open>safeParse\<close> of the two send schemas: \<open>None\<close> when parsing fails, the parsed data
  otherwise. \<open>z.string().uuid()\<close> applies a regular expression of the validation library,
  which is not part of the repository; it is the parameter \<open>isUuid\<close>.
\<close>

definition sendRoomMessageSchema ::
  "(jsstring \<Rightarrow> bool) \<Rightarrow> messagePayload \<Rightarrow> roomMessageData option" where
  "sendRoomMessageSchema isUuid p =
     (case roomId p of
        Str rid \<Rightarrow>
          if baseMessageSchema p \<and> isUuid rid \<and>
             contentOrFileUrl (parsedString (content p)) (parsedString (fileUrl p))
          then Some \<lparr>rm_roomId = rid,
                     rm_content = parsedString (content p),
                     rm_fileUrl = parsedString (fileUrl p)\<rparr>
          else None
      | _ \<Rightarrow> None)"

definition privateMessageSchema ::
  "(jsstring \<Rightarrow> bool) \<Rightarrow> messagePayload \<Rightarrow> privateMessageData option" where
  "privateMessageSchema isUuid p =
     (case receiverId p of
        Str uid \<Rightarrow>
          if baseMessageSchema p \<and> isUuid uid \<and>
             contentOrFileUrl (parsedString (content p)) (parsedString (fileUrl p))
          then Some \<lparr>pm_receiverId = uid,
                     pm_content = parsedString (content p),
                     pm_fileUrl = parsedString (fileUrl p)\<rparr>
          else None
      | _ \<Rightarrow> None)"

text \<open>
  The query of the history read, as \<open>URLSearchParams.get\<close> delivers it: each parameter is
  absent or a string. For \<open>before\<close> the model keeps what \<open>z.string().datetime()\<close> and
  \<open>new Date\<close> make of the string, for \<open>limit\<close> what \<open>z.coerce.number().int()\<close> makes of
  it: \<open>Given v\<close> for a string that denotes the instant (in milliseconds) or the integer
  \<open>v\<close>, \<open>Malformed\<close> for a string that denotes none.
\<close>

datatype 'a coerced = Absent | Given 'a | Malformed

record historyQuery =
  q_roomId :: "jsstring option"
  q_receiverId :: "jsstring option"
  q_before :: "int coerced"
  q_limit :: "int coerced"

record historyData =
  h_roomId :: "jsstring option"
  h_receiverId :: "jsstring option"
  h_before :: "int option"
  h_limit :: int

definition messageHistoryQuerySchema ::
  "(jsstring \<Rightarrow> bool) \<Rightarrow> historyQuery \<Rightarrow> historyData option" where
  "messageHistoryQuerySchema isUuid q =
     (let roomIdOk = (case q_roomId q of None \<Rightarrow> True | Some s \<Rightarrow> isUuid s);
          receiverIdOk = (case q_receiverId q of None \<Rightarrow> True | Some s \<Rightarrow> isUuid s);
          beforeOk = (q_before q \<noteq> Malformed);
          limitOk = (case q_limit q of Absent \<Rightarrow> True | Given n \<Rightarrow> 1 \<le> n \<and> n \<le> 50
                     | Malformed \<Rightarrow> False);
          hasRoomId = truthy (q_roomId q);
          hasReceiverId = truthy (q_receiverId q)
      in if roomIdOk \<and> receiverIdOk \<and> beforeOk \<and> limitOk \<and> hasRoomId \<noteq> hasReceiverId
         then Some \<lparr>h_roomId = q_roomId q,
                    h_receiverId = q_receiverId q,
                    h_before = (case q_before q of Given t \<Rightarrow> Some t | _ \<Rightarrow> None),
                    h_limit = (case q_limit q of Given n \<Rightarrow> n | _ \<Rightarrow> 20)\<rparr>
         else None)"

section \<open>Message store\<close>

text \<open>
  The tables of the migration, with the columns the message paths read or write. Nullable
  columns are options; \<open>createdAt\<close> is a millisecond time stamp (\<open>TIMESTAMP(3)\<close>, and
  the resolution of a JavaScript \<open>Date\<close>).
\<close>

record user =
  user_id :: jsstring
  user_name :: jsstring

record room =
  room_id :: jsstring
  room_isPrivate :: bool
  room_creatorId :: "jsstring option"

record message =
  msg_id :: jsstring
  msg_content :: jsstring
  msg_fileUrl :: "jsstring option"
  msg_senderId :: jsstring
  msg_roomId :: "jsstring option"
  msg_receiverId :: "jsstring option"
  msg_createdAt :: int

record store =
  users :: "user list"
  rooms :: "room list"
  messages :: "message list"

text \<open>The verified principal (\<open>AuthPayload\<close>).\<close>

record authPayload =
  auth_sub :: jsstring
  auth_email :: jsstring
  auth_name :: jsstring

text \<open>
  \<open>ChatMessage\<close>, the record both paths return. \<open>createdAt\<close> is rendered by
  \<open>toISOString\<close>, which is one-to-one on millisecond time stamps; the model keeps the
  time stamp.
\<close>

record chatMessage =
  cm_id :: jsstring
  cm_content :: jsstring
  cm_fileUrl :: "jsstring option"
  cm_senderId :: jsstring
  cm_senderName :: jsstring
  cm_roomId :: "jsstring option"
  cm_receiverId :: "jsstring option"
  cm_createdAt :: int

text \<open>
  \<open>findUnique({where: {id}})\<close> on rooms and users, and the \<open>include: {sender}\<close> join,
  whose foreign key always finds the sender.
\<close>

definition findRoom :: "store \<Rightarrow> jsstring \<Rightarrow> room option" where
  "findRoom db rid = find (\<lambda>r. room_id r = rid) (rooms db)"

definition findUser :: "store \<Rightarrow> jsstring \<Rightarrow> user option" where
  "findUser db uid = find (\<lambda>u. user_id u = uid) (users db)"

definition senderName :: "store \<Rightarrow> message \<Rightarrow> jsstring" where
  "senderName db m = (case findUser db (msg_senderId m) of None \<Rightarrow> [] | Some u \<Rightarrow> user_name u)"

definition mapMessage :: "store \<Rightarrow> message \<Rightarrow> chatMessage" where
  "mapMessage db m =
     \<lparr>cm_id = msg_id m,
      cm_content = msg_content m,
      cm_fileUrl = msg_fileUrl m,
      cm_senderId = msg_senderId m,
      cm_senderName = senderName db m,
      cm_roomId = msg_roomId m,
      cm_receiverId = msg_receiverId m,
      cm_createdAt = msg_createdAt m\<rparr>"

text \<open>\<open>prisma.message.create\<close> appends the row.\<close>

definition createMessage :: "store \<Rightarrow> message \<Rightarrow> store" where
  "createMessage db m = db\<lparr>messages := messages db @ [m]\<rparr>"

text \<open>
  \<open>Prisma.MessageWhereInput\<close> as the history read fills it: an optional room id, an
  optional \<open>OR\<close> of sender and receiver pairs, an optional upper bound on \<open>createdAt\<close>.
  The conditions that are present are conjoined.
\<close>

record messageWhere =
  w_roomId :: "jsstring option"
  w_OR :: "(jsstring \<times> jsstring) list option"
  w_createdAt_lt :: "int option"

definition whereMatches :: "messageWhere \<Rightarrow> message \<Rightarrow> bool" where
  "whereMatches w m \<longleftrightarrow>
     (case w_roomId w of None \<Rightarrow> True | Some r \<Rightarrow> msg_roomId m = Some r) \<and>
     (case w_OR w of None \<Rightarrow> True
      | Some alts \<Rightarrow> list_ex (\<lambda>(s, r). msg_senderId m = s \<and> msg_receiverId m = Some r) alts) \<and>
     (case w_createdAt_lt w of None \<Rightarrow> True | Some t \<Rightarrow> msg_createdAt m < t)"

text \<open>
  \<open>findMany({where, orderBy: [{createdAt: "desc"}], take})\<close>: the matching rows, newest
  first, at most \<open>take\<close> of them.
\<close>

definition findMany :: "store \<Rightarrow> messageWhere \<Rightarrow> int \<Rightarrow> message list" where
  "findMany db w n =
     take (nat n) (sort_key (\<lambda>m. - msg_createdAt m) (filter (whereMatches w) (messages db)))"

section \<open>Sending messages (lib/socket, api/messages)\<close>

text \<open>
  The outcomes the paths distinguish: the socket path throws an error whose message is
  acknowledged, the HTTP path answers 401, 422, 404 or 403. The HTTP send path also
  answers 400 to a body that is not JSON (\<open>InvalidJsonBody\<close>), and it can throw a
  \<open>TypeError\<close> that no handler catches, so that no answer of the route is sent
  (\<open>UncaughtTypeError\<close>).
\<close>

datatype error =
  Unauthorized | ValidationError | NotFound | Forbidden | InvalidJsonBody | UncaughtTypeError

text \<open>The content both paths store: \<open>sanitized || (fileUrl ? "Shared a file" : "")\<close>.\<close>

definition storedContent :: "jsstring option \<Rightarrow> jsstring option \<Rightarrow> jsstring" where
  "storedContent c f =
     (let sanitizedContent = sanitizeMessageContent (case c of None \<Rightarrow> [] | Some s \<Rightarrow> s)
      in if sanitizedContent \<noteq> [] then sanitizedContent
         else if truthy f then str ''Shared a file'' else [])"

text \<open>
  \<open>createRoomMessage\<close> and \<open>createPrivateMessage\<close> of the socket path. The store assigns
  the id \<open>newId\<close> and the time stamp \<open>now\<close> to the new row.
\<close>

definition createRoomMessage ::
  "(jsstring \<Rightarrow> bool) \<Rightarrow> jsstring \<Rightarrow> int \<Rightarrow> store \<Rightarrow> authPayload \<Rightarrow> messagePayload
     \<Rightarrow> error + store \<times> chatMessage" where
  "createRoomMessage isUuid newId now db user payload =
     (case sendRoomMessageSchema isUuid payload of
        None \<Rightarrow> Inl ValidationError
      | Some parsed \<Rightarrow>
          (case findRoom db (rm_roomId parsed) of
             None \<Rightarrow> Inl NotFound
           | Some room \<Rightarrow>
               let message =
                     \<lparr>msg_id = newId,
                      msg_content = storedContent (rm_content parsed) (rm_fileUrl parsed),
                      msg_fileUrl = rm_fileUrl parsed,
                      msg_senderId = auth_sub user,
                      msg_roomId = Some (room_id room),
                      msg_receiverId = None,
                      msg_createdAt = now\<rparr>;
                   db' = createMessage db message
               in Inr (db', mapMessage db' message)))"

definition createPrivateMessage ::
  "(jsstring \<Rightarrow> bool) \<Rightarrow> jsstring \<Rightarrow> int \<Rightarrow> store \<Rightarrow> authPayload \<Rightarrow> messagePayload
     \<Rightarrow> error + store \<times> chatMessage" where
  "createPrivateMessage isUuid newId now db user payload =
     (case privateMessageSchema isUuid payload of
        None \<Rightarrow> Inl ValidationError
      | Some parsed \<Rightarrow>
          (case findUser db (pm_receiverId parsed) of
             None \<Rightarrow> Inl NotFound
           | Some recipient \<Rightarrow>
               let message =
                     \<lparr>msg_id = newId,
                      msg_content = storedContent (pm_content parsed) (pm_fileUrl parsed),
                      msg_fileUrl = pm_fileUrl parsed,
                      msg_senderId = auth_sub user,
                      msg_roomId = None,
                      msg_receiverId = Some (user_id recipient),
                      msg_createdAt = now\<rparr>;
                   db' = createMessage db message
               in Inr (db', mapMessage db' message)))"

text \<open>
  The body of an HTTP request as \<open>req.json()\<close> finds it: not JSON at all, so that
  \<open>req.json()\<close> throws; the JSON value \<open>null\<close>; another JSON value that is not an
  object (a number, a string, a boolean, an array); or a JSON object.
\<close>

datatype requestBody = NotJson | JsonNull | JsonNonObject | JsonObject messagePayload

text \<open>
  \<open>POST /api/messages\<close> after the admission gate, on the body and the principal the
  cookie verifies to (\<open>None\<close> when it verifies to none). Only \<open>req.json()\<close> stands in a
  \<open>try\<close>: it answers 400 when it throws. The handler then reads \<open>body.roomId\<close>. On
  \<open>null\<close> that read throws a \<open>TypeError\<close>, which nothing catches. On another value
  that is not an object the read gives \<open>undefined\<close>, so the body goes to
  \<open>privateMessageSchema\<close>, whose object schema refuses it.
\<close>

definition messages_POST ::
  "(jsstring \<Rightarrow> bool) \<Rightarrow> jsstring \<Rightarrow> int \<Rightarrow> store \<Rightarrow> authPayload option \<Rightarrow> requestBody
     \<Rightarrow> error + store \<times> chatMessage" where
  "messages_POST isUuid newId now db authPayload requestBody =
     (case authPayload of
        None \<Rightarrow> Inl Unauthorized
      | Some auth \<Rightarrow>
          (case requestBody of
             NotJson \<Rightarrow> Inl InvalidJsonBody
           | JsonNull \<Rightarrow> Inl UncaughtTypeError
           | JsonNonObject \<Rightarrow> Inl ValidationError
           | JsonObject body \<Rightarrow>
          let isRoomMessage = (case roomId body of Str _ \<Rightarrow> True | _ \<Rightarrow> False)
          in if isRoomMessage then
               (case sendRoomMessageSchema isUuid body of
                  None \<Rightarrow> Inl ValidationError
                | Some parsed \<Rightarrow>
                    (case findRoom db (rm_roomId parsed) of
                       None \<Rightarrow> Inl NotFound
                     | Some room \<Rightarrow>
                         if room_isPrivate room \<and> room_creatorId room \<noteq> Some (auth_sub auth)
                         then Inl Forbidden
                         else
                           let message =
                                 \<lparr>msg_id = newId,
                                  msg_content =
                                    storedContent (rm_content parsed) (rm_fileUrl parsed),
                                  msg_fileUrl = rm_fileUrl parsed,
                                  msg_senderId = auth_sub auth,
                                  msg_roomId = Some (room_id room),
                                  msg_receiverId = None,
                                  msg_createdAt = now\<rparr>;
                               db' = createMessage db message
                           in Inr (db', mapMessage db' message)))
             else
               (case privateMessageSchema isUuid body of
                  None \<Rightarrow> Inl ValidationError
                | Some parsed \<Rightarrow>
                    (case findUser db (pm_receiverId parsed) of
                       None \<Rightarrow> Inl NotFound
                     | Some recipient \<Rightarrow>
                         let message =
                               \<lparr>msg_id = newId,
                                msg_content =
                                  storedContent (pm_content parsed) (pm_fileUrl parsed),
                                msg_fileUrl = pm_fileUrl parsed,
                                msg_senderId = auth_sub auth,
                                msg_roomId = None,
                                msg_receiverId = Some (user_id recipient),
                                msg_createdAt = now\<rparr>;
                             db' = createMessage db message
                         in Inr (db', mapMessage db' message)))))"

section \<open>History read (api/messages)\<close>

record historyPage =
  page_messages :: "chatMessage list"
  page_nextBefore :: "int option"

definition emptyWhere :: messageWhere where
  "emptyWhere = \<lparr>w_roomId = None, w_OR = None, w_createdAt_lt = None\<rparr>"

text \<open>
  \<open>GET /api/messages\<close> after the admission gate, on the query and the principal the
  cookie verifies to. The handler fills the \<open>where\<close> object in three steps; the first
  one can answer 404 or 403 instead.
\<close>

definition roomStep :: "store \<Rightarrow> authPayload \<Rightarrow> historyData \<Rightarrow> error + messageWhere" where
  "roomStep db auth parsed =
     (case h_roomId parsed of
        None \<Rightarrow> Inr emptyWhere
      | Some rid \<Rightarrow>
          if rid = [] then Inr emptyWhere
          else
            (case findRoom db rid of
               None \<Rightarrow> Inl NotFound
             | Some room \<Rightarrow>
                 if room_isPrivate room \<and> room_creatorId room \<noteq> Some (auth_sub auth)
                 then Inl Forbidden
                 else Inr (emptyWhere\<lparr>w_roomId := Some (room_id room)\<rparr>)))"

definition receiverStep :: "authPayload \<Rightarrow> historyData \<Rightarrow> messageWhere \<Rightarrow> messageWhere" where
  "receiverStep auth parsed w =
     (case h_receiverId parsed of
        None \<Rightarrow> w
      | Some rcv \<Rightarrow>
          if rcv = [] then w
          else w\<lparr>w_OR := Some [(auth_sub auth, rcv), (rcv, auth_sub auth)]\<rparr>)"

definition beforeStep :: "historyData \<Rightarrow> messageWhere \<Rightarrow> messageWhere" where
  "beforeStep parsed w =
     (case h_before parsed of None \<Rightarrow> w | Some t \<Rightarrow> w\<lparr>w_createdAt_lt := Some t\<rparr>)"

definition messages_GET ::
  "(jsstring \<Rightarrow> bool) \<Rightarrow> store \<Rightarrow> authPayload option \<Rightarrow> historyQuery \<Rightarrow> error + historyPage" where
  "messages_GET isUuid db authPayload query =
     (case authPayload of
        None \<Rightarrow> Inl Unauthorized
      | Some auth \<Rightarrow>
          (case messageHistoryQuerySchema isUuid query of
             None \<Rightarrow> Inl ValidationError
           | Some parsed \<Rightarrow>
               (case roomStep db auth parsed of
                  Inl e \<Rightarrow> Inl e
                | Inr w \<Rightarrow>
                    let rows = findMany db (beforeStep parsed (receiverStep auth parsed w))
                                 (h_limit parsed + 1);
                        hasMore = (int (length rows) > h_limit parsed);
                        slicedRows = (if hasMore then take (nat (h_limit parsed)) rows
                                      else rows);
                        nextBefore =
                          (if hasMore then
                             (case slicedRows of [] \<Rightarrow> None
                              | _ \<Rightarrow> Some (msg_createdAt (last slicedRows)))
                           else None)
                    in Inr \<lparr>page_messages = map (mapMessage db) (rev slicedRows),
                            page_nextBefore = nextBefore\<rparr>)))"

text \<open>
  A stand-in for the library's UUID pattern in concrete evaluations: 36 code units,
  hyphens at positions 8, 13, 18 and 23, hexadecimal digits elsewhere.
\<close>

definition isHexDigit :: "16 word \<Rightarrow> bool" where
  "isHexDigit c \<longleftrightarrow>
     (0x30 \<le> c \<and> c \<le> 0x39) \<or> (0x41 \<le> c \<and> c \<le> 0x46) \<or> (0x61 \<le> c \<and> c \<le> 0x66)"

definition uuidShape :: "jsstring \<Rightarrow> bool" where
  "uuidShape s \<longleftrightarrow>
     length s = 36 \<and>
     list_all isHexDigit (take 8 s) \<and> s ! 8 = 0x2D \<and>
     list_all isHexDigit (take 4 (drop 9 s)) \<and> s ! 13 = 0x2D \<and>
     list_all isHexDigit (take 4 (drop 14 s)) \<and> s ! 18 = 0x2D \<and>
     list_all isHexDigit (take 4 (drop 19 s)) \<and> s ! 23 = 0x2D \<and>
     list_all isHexDigit (drop 24 s)"

text \<open>Identifiers and a store for concrete evaluations.\<close>

definition roomA :: jsstring where
  "roomA = str ''11111111-1111-4111-8111-111111111111''"

definition alice :: jsstring where
  "alice = str ''22222222-2222-4222-8222-222222222222''"

definition bob :: jsstring where
  "bob = str ''33333333-3333-4333-8333-333333333333''"

definition carol :: jsstring where
  "carol = str ''44444444-4444-4444-8444-444444444444''"

definition aliceAuth :: authPayload where
  "aliceAuth = \<lparr>auth_sub = alice, auth_email = str ''alice@example.org'',
                 auth_name = str ''Alice''\<rparr>"

definition bobAuth :: authPayload where
  "bobAuth = \<lparr>auth_sub = bob, auth_email = str ''bob@example.org'', auth_name = str ''Bob''\<rparr>"

text \<open>Three users and one private room, which Alice created.\<close>

definition exampleStore :: store where
  "exampleStore =
     \<lparr>users = [\<lparr>user_id = alice, user_name = str ''Alice''\<rparr>,
               \<lparr>user_id = bob, user_name = str ''Bob''\<rparr>,
               \<lparr>user_id = carol, user_name = str ''Carol''\<rparr>],
      rooms = [\<lparr>room_id = roomA, room_isPrivate = True, room_creatorId = Some alice\<rparr>],
      messages = []\<rparr>"

text \<open>
  A store for the pagination scenario: messages 1 to 25 of Alice in the room, message \<open>i\<close>
  created at time \<open>i\<close>, and one direct message from Bob to Alice.
\<close>

definition exampleMessage :: "nat \<Rightarrow> message" where
  "exampleMessage i =
     \<lparr>msg_id = str ''m'' @ [of_nat i], msg_content = str ''hello'', msg_fileUrl = None,
      msg_senderId = alice, msg_roomId = Some roomA, msg_receiverId = None,
      msg_createdAt = int i\<rparr>"

definition roomStore :: store where
  "roomStore = exampleStore\<lparr>messages :=
     map exampleMessage [1..<26] @
     [\<lparr>msg_id = str ''dm'', msg_content = str ''psst'', msg_fileUrl = None,
       msg_senderId = bob, msg_roomId = None, msg_receiverId = Some alice,
       msg_createdAt = 7\<rparr>]\<rparr>"

section \<open>Rate limiter (lib/rate-limit)\<close>

text \<open>
  The limiter keeps a \<open>Map<string, RateLimitEntry>\<close>, of which the code only looks
  keys up: it is a partial function from keys to entries. Counts and millisecond clock
  readings are integers. \<open>Date.now()\<close> is read once in
  \<open>evaluateRateLimit\<close> (\<open>now\<close>) and once more when a rejection computes its
  \<open>Retry-After\<close> (\<open>now2\<close>); both readings are parameters.
\<close>

record rateLimitOptions =
  opt_max :: int
  opt_windowMs :: int

record rateLimitEntry =
  entry_count :: int
  entry_resetAt :: int

type_synonym rateLimitStore = "jsstring \<rightharpoonup> rateLimitEntry"

text \<open>The loop deletes every entry whose window has ended.\<close>

definition cleanupExpiredEntries :: "int \<Rightarrow> rateLimitStore \<Rightarrow> rateLimitStore" where
  "cleanupExpiredEntries now store =
     (\<lambda>key. case store key of
              None \<Rightarrow> None
            | Some entry \<Rightarrow> if entry_resetAt entry \<le> now then None else Some entry)"

text \<open>The two headers \<open>resolveClientIp\<close> reads; \<open>None\<close> for a header that is not sent.\<close>

record request =
  x_forwarded_for :: "jsstring option"
  x_real_ip :: "jsstring option"

definition resolveClientIp :: "request \<Rightarrow> jsstring" where
  "resolveClientIp req =
     (if truthy (x_forwarded_for req)
      then (case x_forwarded_for req of
              Some xForwardedFor \<Rightarrow> trim (takeWhile (\<lambda>c. c \<noteq> 0x002C) xForwardedFor)
            | None \<Rightarrow> str ''unknown'')
      else (case x_real_ip req of None \<Rightarrow> str ''unknown'' | Some ip \<Rightarrow> ip))"

record rateLimitDecision =
  d_ok :: bool
  d_remaining :: int
  d_resetAt :: int

definition evaluateRateLimit ::
  "jsstring \<Rightarrow> rateLimitOptions \<Rightarrow> int \<Rightarrow> rateLimitStore \<Rightarrow> rateLimitStore \<times> rateLimitDecision" where
  "evaluateRateLimit key options now store0 =
     (let store = cleanupExpiredEntries now store0;
          nextEntry = \<lparr>entry_count = 1, entry_resetAt = now + opt_windowMs options\<rparr>;
          opened = (store(key \<mapsto> nextEntry),
                    \<lparr>d_ok = True, d_remaining = max 0 (opt_max options - 1),
                     d_resetAt = entry_resetAt nextEntry\<rparr>)
      in case store key of
           None \<Rightarrow> opened
         | Some existing \<Rightarrow>
             if entry_resetAt existing \<le> now then opened
             else
               let counted = existing\<lparr>entry_count := entry_count existing + 1\<rparr>
               in (store(key \<mapsto> counted),
                   \<lparr>d_ok = (entry_count counted \<le> opt_max options),
                    d_remaining = max 0 (opt_max options - entry_count counted),
                    d_resetAt = entry_resetAt counted\<rparr>))"

text \<open>
  The 429 response: \<open>Retry-After\<close>, \<open>X-RateLimit-Limit\<close> and \<open>X-RateLimit-Reset\<close>
  (\<open>X-RateLimit-Remaining\<close> is the constant 0). \<open>Math.ceil(x / 1000)\<close> of an integer
  \<open>x\<close> is \<open>- (- x div 1000)\<close>.
\<close>

record tooManyRequests =
  retryAfterSeconds :: int
  rateLimitLimit :: int
  rateLimitReset :: int

definition enforceRateLimit ::
  "request \<Rightarrow> jsstring \<Rightarrow> rateLimitOptions \<Rightarrow> int \<Rightarrow> int \<Rightarrow> rateLimitStore
     \<Rightarrow> rateLimitStore \<times> tooManyRequests option" where
  "enforceRateLimit req scope options now now2 store =
     (let ip = resolveClientIp req;
          key = scope @ str '':'' @ ip;
          evaluated = evaluateRateLimit key options now store;
          decision = snd evaluated
      in if d_ok decision then (fst evaluated, None)
         else (fst evaluated,
               Some \<lparr>retryAfterSeconds = max 1 (- (- (d_resetAt decision - now2) div 1000)),
                     rateLimitLimit = opt_max options,
                     rateLimitReset = d_resetAt decision\<rparr>))"

text \<open>
  \<open>POST /api/auth/register\<close>: the admission gate, then the registration proper, which is
  the parameter \<open>handler\<close> on the state \<open>db\<close> it works on. The state of the route is
  the limiter's store and \<open>db\<close>.
\<close>

definition register_POST ::
  "('db \<Rightarrow> 'resp \<times> 'db) \<Rightarrow> request \<Rightarrow> int \<Rightarrow> int \<Rightarrow> rateLimitStore \<times> 'db
     \<Rightarrow> (tooManyRequests + 'resp) \<times> rateLimitStore \<times> 'db" where
  "register_POST handler req now now2 state =
     (let gate = enforceRateLimit req (str ''auth:register'')
                   \<lparr>opt_max = 10, opt_windowMs = 60000\<rparr> now now2 (fst state)
      in case snd gate of
           Some rateLimitResponse \<Rightarrow> (Inl rateLimitResponse, fst gate, snd state)
         | None \<Rightarrow> (Inr (fst (handler (snd state))), fst gate, snd (handler (snd state))))"

text \<open>Calls of the gate one after another, each with its two clock readings.\<close>

fun enforceEach ::
  "request \<Rightarrow> jsstring \<Rightarrow> rateLimitOptions \<Rightarrow> (int \<times> int) list \<Rightarrow> rateLimitStore
     \<Rightarrow> rateLimitStore \<times> tooManyRequests option list" where
  "enforceEach req scope options [] store = (store, [])"
| "enforceEach req scope options ((now, now2) # calls) store =
     (let first = enforceRateLimit req scope options now now2 store;
          others = enforceEach req scope options calls (fst first)
      in (fst others, snd first # snd others))"

text \<open>A request for concrete evaluations.\<close>

definition exampleRequest :: request where
  "exampleRequest = \<lparr>x_forwarded_for = Some (str ''203.0.113.7, 10.0.0.1''), x_real_ip = None\<rparr>"

definition registerOptions :: rateLimitOptions where
  "registerOptions = \<lparr>opt_max = 10, opt_windowMs = 60000\<rparr>"

text \<open>Nine calls inside the window that a call at time 0 opens, with their clock readings.\<close>

definition nineCalls :: "(int \<times> int) list" where
  "nineCalls = [(5000, 5001), (10000, 10000), (15000, 15002), (20000, 20000),
                (25000, 25000), (30000, 30001), (35000, 35000), (40000, 40000),
                (45000, 45003)]"

text \<open>The limiter's store after the call at time 0 and these nine, from an empty store.\<close>

definition afterTenCalls :: rateLimitStore where
  "afterTenCalls =
     fst (enforceEach exampleRequest (str ''auth:register'') registerOptions
            ((0, 0) # nineCalls) Map.empty)"

section \<open>Facts about trimming\<close>

lemma set_trim_subset: "set (trim s) \<subseteq> set s"
proof -
  have "set (trim s) \<subseteq> set (rev (dropWhile isWhiteSpace s))"
    unfolding trim_def using set_dropWhileD by fastforce
  also have "\<dots> \<subseteq> set s"
    using set_dropWhileD by fastforce
  finally show ?thesis .
qed

lemma trim_Nil_or_ends:
  "trim s = [] \<or> (\<not> isWhiteSpace (hd (trim s)) \<and> \<not> isWhiteSpace (last (trim s)))"
proof (cases "trim s = []")
  case True
  then show ?thesis by simp
next
  case False
  define a where "a = dropWhile isWhiteSpace s"
  define b where "b = dropWhile isWhiteSpace (rev a)"
  have t: "trim s = rev b" by (simp add: trim_def a_def b_def)
  with False have bne: "b \<noteq> []" by simp
  then have hb: "\<not> isWhiteSpace (hd b)"
    unfolding b_def using hd_dropWhile by blast
  have lastt: "last (trim s) = hd b"
    using bne by (simp add: t last_rev)
  have ane: "a \<noteq> []" using bne by (auto simp: b_def)
  then have ha: "\<not> isWhiteSpace (hd a)"
    unfolding a_def using hd_dropWhile by blast
  have "rev a \<noteq> []" using ane by simp
  have "\<exists>ws. rev a = ws @ b"
    unfolding b_def by (metis takeWhile_dropWhile_id)
  then obtain ws where "rev a = ws @ b" by blast
  then have "a = rev b @ rev ws" by (metis rev_append rev_rev_ident)
  then have "hd a = hd (rev b)" using bne by simp
  with ha t have "\<not> isWhiteSpace (hd (trim s))" by simp
  with hb lastt show ?thesis by simp
qed

lemma trim_fixed:
  assumes "s = [] \<or> (\<not> isWhiteSpace (hd s) \<and> \<not> isWhiteSpace (last s))"
  shows "trim s = s"
proof (cases "s = []")
  case True
  then show ?thesis by (simp add: trim_def)
next
  case False
  with assms have h: "\<not> isWhiteSpace (hd s)" and l: "\<not> isWhiteSpace (last s)" by auto
  from False h have d1: "dropWhile isWhiteSpace s = s"
    by (cases s) auto
  from False l have "\<not> isWhiteSpace (hd (rev s))" by (simp add: hd_rev)
  with False have d2: "dropWhile isWhiteSpace (rev s) = rev s"
    by (cases "rev s") auto
  show ?thesis by (simp add: trim_def d1 d2)
qed

lemma trim_idem: "trim (trim s) = trim s"
  using trim_fixed [OF trim_Nil_or_ends] .

section \<open>Sanitizer theorems\<close>

lemma sanitize_chars:
  "c \<in> set (sanitizeMessageContent x) \<Longrightarrow> \<not> CONTROL_CHARACTERS_REGEX c \<and> \<not> angleBracket c"
  using set_trim_subset unfolding sanitizeMessageContent_def by fastforce

text \<open>
  Claim C5, as amended: for every input string the sanitizer removes every code unit in
  U+0000..U+001F and U+007F, removes every \<open><\<close> and \<open>>\<close>, keeps every other code unit
  (the C1 range U+0080..U+009F included) in order, and then trims white space from both ends.
\<close>

theorem sanitize_strips_ascii_controls_and_brackets:
  "sanitizeMessageContent x =
     trim (filter (\<lambda>c. \<not> (c \<le> 0x1F \<or> c = 0x7F \<or> c = 0x3C \<or> c = 0x3E)) x)
   \<and> (\<forall>c \<in> set (sanitizeMessageContent x).
        \<not> c \<le> 0x1F \<and> c \<noteq> 0x7F \<and> c \<noteq> 0x3C \<and> c \<noteq> 0x3E)
   \<and> (sanitizeMessageContent x = [] \<or>
        (\<not> isWhiteSpace (hd (sanitizeMessageContent x)) \<and>
         \<not> isWhiteSpace (last (sanitizeMessageContent x))))"
proof (intro conjI)
  have "filter (\<lambda>c. \<not> angleBracket c) (filter (\<lambda>c. \<not> CONTROL_CHARACTERS_REGEX c) x) =
        filter (\<lambda>c. \<not> (c \<le> 0x1F \<or> c = 0x7F \<or> c = 0x3C \<or> c = 0x3E)) x"
    by (induction x) (auto simp: angleBracket_def CONTROL_CHARACTERS_REGEX_def)
  then show "sanitizeMessageContent x =
     trim (filter (\<lambda>c. \<not> (c \<le> 0x1F \<or> c = 0x7F \<or> c = 0x3C \<or> c = 0x3E)) x)"
    by (simp only: sanitizeMessageContent_def)
next
  show "\<forall>c \<in> set (sanitizeMessageContent x).
        \<not> c \<le> 0x1F \<and> c \<noteq> 0x7F \<and> c \<noteq> 0x3C \<and> c \<noteq> 0x3E"
    using sanitize_chars [of _ x]
    by (auto simp: angleBracket_def CONTROL_CHARACTERS_REGEX_def)
next
  show "sanitizeMessageContent x = [] \<or>
        (\<not> isWhiteSpace (hd (sanitizeMessageContent x)) \<and>
         \<not> isWhiteSpace (last (sanitizeMessageContent x)))"
    unfolding sanitizeMessageContent_def by (rule trim_Nil_or_ends)
qed

theorem sanitize_strips_witness:
  "sanitizeMessageContent (str '' <b>hi</b> '' @ [0x0007, 0x0085, 0x0009]) =
     str ''bhi/b '' @ [0x0085]"
  using sanitize_strips_ascii_controls_and_brackets
          [of "str '' <b>hi</b> '' @ [0x0007, 0x0085, 0x0009]"]
  by (simp add: str_def trim_def isWhiteSpace_def)

text \<open>
  The claim as the specification words it also has the C1 control characters removed.
  The code unit U+0085 is a C1 control character and survives sanitization.
\<close>

theorem sanitize_keeps_c1_control:
  "isC1Control 0x0085 \<and>
   sanitizeMessageContent [0x0061, 0x0085, 0x0062] = [0x0061, 0x0085, 0x0062]"
  by (simp add: isC1Control_def sanitizeMessageContent_def trim_def isWhiteSpace_def
      angleBracket_def CONTROL_CHARACTERS_REGEX_def)

text \<open>
  Claim C8: the sanitizer is idempotent: sanitizing a sanitized string returns it unchanged.
\<close>

theorem sanitize_idempotent:
  "sanitizeMessageContent (sanitizeMessageContent x) = sanitizeMessageContent x"
proof -
  let ?y = "sanitizeMessageContent x"
  have keep: "\<forall>c \<in> set ?y. \<not> CONTROL_CHARACTERS_REGEX c \<and> \<not> angleBracket c"
    using sanitize_chars by blast
  then have f1: "filter (\<lambda>c. \<not> CONTROL_CHARACTERS_REGEX c) ?y = ?y"
    by (simp add: filter_id_conv)
  from keep have f2: "filter (\<lambda>c. \<not> angleBracket c) ?y = ?y"
    by (simp add: filter_id_conv)
  have "sanitizeMessageContent ?y = trim ?y"
    by (subst (1) sanitizeMessageContent_def) (simp only: f1 f2)
  also have "\<dots> = ?y"
    unfolding sanitizeMessageContent_def by (rule trim_idem)
  finally show ?thesis .
qed

section \<open>Presence registry theorems\<close>

lemma noEmptySets_add: "noEmptySets m \<Longrightarrow> noEmptySets (addOnlineUser m u s)"
  by (auto simp: noEmptySets_def addOnlineUser_def update_conv' split: option.splits)

lemma noEmptySets_remove: "noEmptySets m \<Longrightarrow> noEmptySets (fst (removeOnlineUser m u s))"
  by (auto simp: noEmptySets_def removeOnlineUser_def update_conv' delete_conv'
      split: option.splits)

lemma noEmptySets_handle:
  assumes "noEmptySets m"
  shows "noEmptySets (fst (handleSocketEvent m e))"
proof (cases e)
  case (connection u s)
  with assms show ?thesis by (simp add: onConnection_def Let_def noEmptySets_add)
next
  case (disconnect u s)
  from assms have "noEmptySets (fst (removeOnlineUser m u s))" by (rule noEmptySets_remove)
  with disconnect show ?thesis by (simp add: onDisconnect_def Let_def)
qed

lemma noEmptySets_reached: "noEmptySets (reached evs)"
  unfolding reached_def
  by (induction evs rule: rev_induct) (simp_all add: noEmptySets_def noEmptySets_handle [unfolded noEmptySets_def])

lemma fst_onConnection: "fst (onConnection m u s) = addOnlineUser m u s"
  by (simp add: onConnection_def Let_def)

lemma snd_onConnection:
  "snd (onConnection m u s) = [user_online u (getOnlineUserIds (addOnlineUser m u s))]"
  by (simp add: onConnection_def Let_def)

lemma fst_onDisconnect: "fst (onDisconnect m u s) = fst (removeOnlineUser m u s)"
  by (simp add: onDisconnect_def Let_def)

lemma snd_onDisconnect:
  "snd (onDisconnect m u s) =
     (if snd (removeOnlineUser m u s)
      then [user_offline u (getOnlineUserIds (fst (removeOnlineUser m u s)))] else [])"
  by (simp add: onDisconnect_def Let_def)

lemma online_iff: "noEmptySets m \<Longrightarrow> u \<in> set (getOnlineUserIds m) \<longleftrightarrow> connectionsOf m u \<noteq> {}"
  by (auto simp: noEmptySets_def getOnlineUserIds_def connectionsOf_def map_of_eq_None_iff [symmetric]
      split: option.splits)

lemma connectionsOf_add:
  "connectionsOf (addOnlineUser m u s) v = (if v = u then insert s (connectionsOf m u) else connectionsOf m v)"
  by (auto simp: connectionsOf_def addOnlineUser_def update_conv' split: option.splits)

lemma connectionsOf_remove:
  "connectionsOf (fst (removeOnlineUser m u s)) v = (if v = u then connectionsOf m u - {s} else connectionsOf m v)"
  by (auto simp: connectionsOf_def removeOnlineUser_def update_conv' delete_conv' split: option.splits)

lemma removeOnlineUser_True:
  assumes "noEmptySets m"
  shows "snd (removeOnlineUser m u s) \<longleftrightarrow> connectionsOf m u = {s}"
proof (cases "map_of m u")
  case None
  then show ?thesis by (simp add: connectionsOf_def removeOnlineUser_def)
next
  case (Some existing)
  with assms have "existing \<noteq> {}" by (auto simp: noEmptySets_def)
  then have "existing - {s} = {} \<longleftrightarrow> existing = {s}" by auto
  with Some show ?thesis by (simp add: connectionsOf_def removeOnlineUser_def)
qed

lemma removeOnlineUser_deleted:
  "snd (removeOnlineUser m u s) \<Longrightarrow> map_of (fst (removeOnlineUser m u s)) u = None"
  by (auto simp: removeOnlineUser_def delete_conv' split: option.splits if_splits)

lemma ids_add: "getOnlineUserIds (addOnlineUser m u s) =
   (if map_of m u = None then getOnlineUserIds m @ [u] else getOnlineUserIds m)"
  by (auto simp: getOnlineUserIds_def addOnlineUser_def map_of_eq_None_iff update_keys split: option.splits)

text \<open>
  Claim C1, as amended: every connection broadcasts \<open>user_online\<close> with the list of online
  user ids, whether or not the user already has a live connection. The user is appended to
  that list only when the connection is the user's first live one; a connection opened while
  the user has a live connection leaves the list as it was and only registers the socket.
\<close>

theorem connection_always_signals_online:
  "snd (onConnection (reached evs) u s) =
     [user_online u (getOnlineUserIds (fst (onConnection (reached evs) u s)))]
   \<and> getOnlineUserIds (fst (onConnection (reached evs) u s)) =
     (if connectionsOf (reached evs) u = {} then getOnlineUserIds (reached evs) @ [u]
      else getOnlineUserIds (reached evs))
   \<and> connectionsOf (fst (onConnection (reached evs) u s)) u =
     insert s (connectionsOf (reached evs) u)"
proof -
  have "map_of (reached evs) u = None \<longleftrightarrow> connectionsOf (reached evs) u = {}"
    using noEmptySets_reached [of evs]
    by (auto simp: noEmptySets_def connectionsOf_def split: option.splits)
  then show ?thesis
    by (simp only: fst_onConnection snd_onConnection ids_add connectionsOf_add if_True simp_thms)
qed

text \<open>
  The claim as the specification words it has no \<open>user_online\<close> signal for a connection of
  a user who is online already. Here user \<open>u1\<close> holds socket \<open>s1\<close> and connects \<open>s2\<close>.
\<close>

theorem second_connection_signals_online:
  "connectionsOf (reached [connection (str ''u1'') (str ''s1'')]) (str ''u1'') = {str ''s1''}
   \<and> snd (onConnection (reached [connection (str ''u1'') (str ''s1'')]) (str ''u1'') (str ''s2''))
       = [user_online (str ''u1'') [str ''u1'']]"
  by (simp add: reached_def onConnection_def Let_def addOnlineUser_def getOnlineUserIds_def
      connectionsOf_def str_def)

text \<open>
  Claim C7: in every reachable registry a user is listed by \<open>getOnlineUserIds\<close> if and only
  if the user has a live connection, and no user id maps to an empty set; a disconnect
  broadcasts \<open>user_offline\<close> exactly when it removes the user's last connection, and then
  the user's entry is gone from the registry.
\<close>

theorem presence_registry_invariant:
  "(u \<in> set (getOnlineUserIds (reached evs)) \<longleftrightarrow> connectionsOf (reached evs) u \<noteq> {})
   \<and> map_of (reached evs) u \<noteq> Some {}
   \<and> snd (onDisconnect (reached evs) u s) =
       (if connectionsOf (reached evs) u = {s}
        then [user_offline u (getOnlineUserIds (fst (onDisconnect (reached evs) u s)))]
        else [])
   \<and> (connectionsOf (reached evs) u = {s} \<longrightarrow>
        map_of (fst (onDisconnect (reached evs) u s)) u = None
        \<and> u \<notin> set (getOnlineUserIds (fst (onDisconnect (reached evs) u s))))
   \<and> connectionsOf (fst (onDisconnect (reached evs) u s)) u = connectionsOf (reached evs) u - {s}"
proof -
  let ?m = "reached evs"
  have inv: "noEmptySets ?m" by (rule noEmptySets_reached)
  have a: "u \<in> set (getOnlineUserIds ?m) \<longleftrightarrow> connectionsOf ?m u \<noteq> {}"
    using inv by (rule online_iff)
  have b: "map_of ?m u \<noteq> Some {}"
    using inv by (simp add: noEmptySets_def)
  have t: "snd (removeOnlineUser ?m u s) \<longleftrightarrow> connectionsOf ?m u = {s}"
    using inv by (rule removeOnlineUser_True)
  have fst_eq: "fst (onDisconnect ?m u s) = fst (removeOnlineUser ?m u s)"
    by (rule fst_onDisconnect)
  have c: "snd (onDisconnect ?m u s) =
       (if connectionsOf ?m u = {s}
        then [user_offline u (getOnlineUserIds (fst (onDisconnect ?m u s)))] else [])"
    by (simp only: snd_onDisconnect fst_eq t)
  have d1: "connectionsOf ?m u = {s} \<longrightarrow> map_of (fst (onDisconnect ?m u s)) u = None"
    using t removeOnlineUser_deleted [of ?m u s] by (simp only: fst_eq) blast
  have d2: "connectionsOf ?m u = {s} \<longrightarrow> u \<notin> set (getOnlineUserIds (fst (onDisconnect ?m u s)))"
    using d1 unfolding getOnlineUserIds_def map_of_eq_None_iff by simp
  have e: "connectionsOf (fst (onDisconnect ?m u s)) u = connectionsOf ?m u - {s}"
    by (simp only: fst_eq connectionsOf_remove simp_thms if_True)
  have d: "connectionsOf ?m u = {s} \<longrightarrow>
        map_of (fst (onDisconnect ?m u s)) u = None
        \<and> u \<notin> set (getOnlineUserIds (fst (onDisconnect ?m u s)))"
  proof (intro impI conjI)
    assume h: "connectionsOf ?m u = {s}"
    from d1 h show "map_of (fst (onDisconnect ?m u s)) u = None" by (rule mp)
    from d2 h show "u \<notin> set (getOnlineUserIds (fst (onDisconnect ?m u s)))" by (rule mp)
  qed
  from a b c d e show ?thesis by (intro conjI)
qed

lemma reached_example:
  "reached [connection (str ''u1'') (str ''s1''), connection (str ''u1'') (str ''s2''),
            disconnect (str ''u1'') (str ''s1'')] = [(str ''u1'', {str ''s2''})]"
  by (simp add: reached_def onConnection_def onDisconnect_def Let_def addOnlineUser_def
      removeOnlineUser_def str_def insert_Diff_if)

theorem presence_registry_invariant_witness:
  "connectionsOf (reached [connection (str ''u1'') (str ''s1''),
      connection (str ''u1'') (str ''s2''), disconnect (str ''u1'') (str ''s1'')]) (str ''u1'')
     = {str ''s2''}
   \<and> onDisconnect (reached [connection (str ''u1'') (str ''s1''),
      connection (str ''u1'') (str ''s2''), disconnect (str ''u1'') (str ''s1'')])
        (str ''u1'') (str ''s2'') = ([], [user_offline (str ''u1'') []])"
proof -
  let ?evs = "[connection (str ''u1'') (str ''s1''),
      connection (str ''u1'') (str ''s2''), disconnect (str ''u1'') (str ''s1'')]"
  have h: "connectionsOf (reached ?evs) (str ''u1'') = {str ''s2''}"
    by (simp add: reached_example connectionsOf_def)
  have r: "fst (onDisconnect (reached ?evs) (str ''u1'') (str ''s2'')) = []"
    by (simp add: reached_example fst_onDisconnect removeOnlineUser_def)
  from presence_registry_invariant [of "str ''u1''" ?evs "str ''s2''"] h
  have "snd (onDisconnect (reached ?evs) (str ''u1'') (str ''s2'')) =
          [user_offline (str ''u1'') (getOnlineUserIds [])]"
    by (simp add: r)
  with h r show ?thesis
    by (simp add: getOnlineUserIds_def prod_eq_iff)
qed

section \<open>Facts about the concrete identifiers\<close>

lemma uuidShape_ids: "uuidShape roomA" "uuidShape alice" "uuidShape bob" "uuidShape carol"
  by (simp_all add: uuidShape_def roomA_def alice_def bob_def carol_def str_def isHexDigit_def)

lemma ids_distinct:
  "alice \<noteq> bob" "bob \<noteq> alice" "alice \<noteq> carol" "carol \<noteq> alice" "bob \<noteq> carol" "carol \<noteq> bob"
  by (simp_all add: alice_def bob_def carol_def str_def)

lemma ids_nonempty: "roomA \<noteq> []" "alice \<noteq> []" "bob \<noteq> []" "carol \<noteq> []"
  by (simp_all add: roomA_def alice_def bob_def carol_def str_def)

lemma findRoom_example:
  "findRoom exampleStore roomA =
     Some \<lparr>room_id = roomA, room_isPrivate = True, room_creatorId = Some alice\<rparr>"
  by (simp add: findRoom_def exampleStore_def)

lemma findUser_example:
  "findUser (exampleStore\<lparr>messages := ms\<rparr>) alice = Some \<lparr>user_id = alice, user_name = str ''Alice''\<rparr>"
  "findUser (exampleStore\<lparr>messages := ms\<rparr>) bob = Some \<lparr>user_id = bob, user_name = str ''Bob''\<rparr>"
  "findUser (exampleStore\<lparr>messages := ms\<rparr>) carol = Some \<lparr>user_id = carol, user_name = str ''Carol''\<rparr>"
  by (simp_all add: findUser_def exampleStore_def ids_distinct)

lemma trim_brackets: "trim (str ''<>'') = str ''<>''"
  by (simp add: trim_def str_def isWhiteSpace_def)

lemma sanitize_brackets: "sanitizeMessageContent (str ''<>'') = []"
  by (simp add: sanitizeMessageContent_def trim_def str_def angleBracket_def
      CONTROL_CHARACTERS_REGEX_def)

lemma trim_hi: "trim (str ''hi'') = str ''hi''"
  by (simp add: trim_def str_def isWhiteSpace_def)

lemma sanitize_hi: "sanitizeMessageContent (str ''hi'') = str ''hi''"
  by (simp add: sanitizeMessageContent_def trim_def str_def angleBracket_def
      CONTROL_CHARACTERS_REGEX_def isWhiteSpace_def)

section \<open>Send theorems\<close>

text \<open>
  Claim C2 at a failing input: a room message whose content is \<open><>\<close> and which has no
  file passes the schema, since the refinement looks at the trimmed raw content. The
  sanitizer then empties the content, and the row is stored with empty content and no
  file instead of failing with a validation error.
\<close>

theorem stripped_content_is_stored_empty:
  "createRoomMessage uuidShape (str ''m1'') 1000 exampleStore aliceAuth
     \<lparr>roomId = Str roomA, receiverId = Undefined, content = Str (str ''<>''),
      fileUrl = Undefined\<rparr>
   = Inr (exampleStore\<lparr>messages :=
            [\<lparr>msg_id = str ''m1'', msg_content = [], msg_fileUrl = None,
              msg_senderId = alice, msg_roomId = Some roomA, msg_receiverId = None,
              msg_createdAt = 1000\<rparr>]\<rparr>,
          \<lparr>cm_id = str ''m1'', cm_content = [], cm_fileUrl = None, cm_senderId = alice,
           cm_senderName = str ''Alice'', cm_roomId = Some roomA, cm_receiverId = None,
           cm_createdAt = 1000\<rparr>)"
proof -
  have schema: "sendRoomMessageSchema uuidShape
      \<lparr>roomId = Str roomA, receiverId = Undefined, content = Str (str ''<>''),
       fileUrl = Undefined\<rparr>
     = Some \<lparr>rm_roomId = roomA, rm_content = Some (str ''<>''), rm_fileUrl = None\<rparr>"
    by (simp add: sendRoomMessageSchema_def baseMessageSchema_def optionalString_def
        parsedString_def contentOrFileUrl_def truthy_def trim_brackets uuidShape_ids)
       (simp add: str_def)
  have stored: "storedContent (Some (str ''<>'')) None = []"
    by (simp add: storedContent_def sanitize_brackets truthy_def)
  have db': "createMessage exampleStore m = exampleStore\<lparr>messages := [m]\<rparr>" for m
    by (simp add: createMessage_def exampleStore_def)
  show ?thesis
    by (simp add: createRoomMessage_def schema findRoom_example stored db' mapMessage_def
        senderName_def findUser_example aliceAuth_def)
qed

lemma room_schema_Some:
  assumes "sendRoomMessageSchema isUuid p = Some parsed"
  shows "roomId p = Str (rm_roomId parsed)"
  using assms by (auto simp: sendRoomMessageSchema_def split: jsvalue.splits if_splits)

lemma room_schema_ignores_receiverId:
  "sendRoomMessageSchema isUuid (p\<lparr>receiverId := v\<rparr>) = sendRoomMessageSchema isUuid p"
  by (cases "roomId p") (simp_all add: sendRoomMessageSchema_def baseMessageSchema_def)

lemma history_schema_both:
  assumes "\<not> isUuid []" and "q_roomId q = Some r" and "q_receiverId q = Some x"
  shows "messageHistoryQuerySchema isUuid q = None"
proof (cases "isUuid r \<and> isUuid x")
  case True
  with assms(1) have "r \<noteq> []" and "x \<noteq> []" by auto
  with assms(2,3) show ?thesis
    by (simp add: messageHistoryQuerySchema_def Let_def truthy_def)
next
  case False
  with assms(2,3) show ?thesis
    by (auto simp: messageHistoryQuerySchema_def Let_def)
qed

lemma history_schema_neither:
  assumes "q_roomId q = None" and "q_receiverId q = None"
  shows "messageHistoryQuerySchema isUuid q = None"
  using assms by (simp add: messageHistoryQuerySchema_def Let_def truthy_def)

text \<open>
  Claim C3, as amended: the history read rejects every query that gives both \<open>roomId\<close> and
  \<open>receiverId\<close>, and every query that gives neither, as a validation error (the UUID check
  rejecting the empty string). Message creation rejects every payload that is a JSON object
  and gives neither: the HTTP path and both socket paths answer with a validation error,
  and so does the HTTP path for a body that is a JSON value other than an object and other
  than \<open>null\<close>. An object that gives both is not rejected for that: the HTTP path takes an
  object with a string \<open>roomId\<close> for a room message and handles it as if \<open>receiverId\<close>
  were absent.
\<close>

theorem room_and_receiver_exclusive:
  assumes "\<not> isUuid []"
  shows "(q_roomId q \<noteq> None \<and> q_receiverId q \<noteq> None \<longrightarrow>
            messages_GET isUuid db (Some auth) q = Inl ValidationError)
       \<and> (q_roomId q = None \<and> q_receiverId q = None \<longrightarrow>
            messages_GET isUuid db (Some auth) q = Inl ValidationError)
       \<and> (roomId body = Undefined \<and> receiverId body = Undefined \<longrightarrow>
            messages_POST isUuid newId now db (Some auth) (JsonObject body) = Inl ValidationError
          \<and> createRoomMessage isUuid newId now db auth body = Inl ValidationError
          \<and> createPrivateMessage isUuid newId now db auth body = Inl ValidationError)
       \<and> messages_POST isUuid newId now db (Some auth) JsonNonObject = Inl ValidationError
       \<and> (roomId body \<noteq> Undefined \<and> roomId body \<noteq> NonString \<longrightarrow>
            messages_POST isUuid newId now db (Some auth) (JsonObject body) =
            messages_POST isUuid newId now db (Some auth)
              (JsonObject (body\<lparr>receiverId := Undefined\<rparr>)))"
proof (intro conjI impI)
  assume "q_roomId q \<noteq> None \<and> q_receiverId q \<noteq> None"
  then obtain r x where "q_roomId q = Some r" "q_receiverId q = Some x" by auto
  with assms have "messageHistoryQuerySchema isUuid q = None" by (rule history_schema_both)
  then show "messages_GET isUuid db (Some auth) q = Inl ValidationError"
    by (simp add: messages_GET_def)
next
  assume "q_roomId q = None \<and> q_receiverId q = None"
  then have "messageHistoryQuerySchema isUuid q = None" by (simp add: history_schema_neither)
  then show "messages_GET isUuid db (Some auth) q = Inl ValidationError"
    by (simp add: messages_GET_def)
next
  assume n: "roomId body = Undefined \<and> receiverId body = Undefined"
  then have r: "sendRoomMessageSchema isUuid body = None"
    and p: "privateMessageSchema isUuid body = None"
    by (simp_all add: sendRoomMessageSchema_def privateMessageSchema_def)
  from n p show "messages_POST isUuid newId now db (Some auth) (JsonObject body) =
      Inl ValidationError"
    by (simp add: messages_POST_def)
  from r show "createRoomMessage isUuid newId now db auth body = Inl ValidationError"
    by (simp add: createRoomMessage_def)
  from p show "createPrivateMessage isUuid newId now db auth body = Inl ValidationError"
    by (simp add: createPrivateMessage_def)
next
  show "messages_POST isUuid newId now db (Some auth) JsonNonObject = Inl ValidationError"
    by (simp add: messages_POST_def)
next
  assume "roomId body \<noteq> Undefined \<and> roomId body \<noteq> NonString"
  then obtain r where r: "roomId body = Str r" by (cases "roomId body") auto
  then show "messages_POST isUuid newId now db (Some auth) (JsonObject body) =
             messages_POST isUuid newId now db (Some auth)
               (JsonObject (body\<lparr>receiverId := Undefined\<rparr>))"
    by (simp add: messages_POST_def room_schema_ignores_receiverId)
qed

theorem room_and_receiver_exclusive_witness:
  "messages_GET uuidShape exampleStore (Some aliceAuth)
     \<lparr>q_roomId = Some roomA, q_receiverId = Some bob, q_before = Absent, q_limit = Absent\<rparr>
     = Inl ValidationError
   \<and> messages_GET uuidShape exampleStore (Some aliceAuth)
     \<lparr>q_roomId = None, q_receiverId = None, q_before = Absent, q_limit = Absent\<rparr>
     = Inl ValidationError
   \<and> messages_POST uuidShape (str ''m1'') 1000 exampleStore (Some aliceAuth)
     (JsonObject \<lparr>roomId = Undefined, receiverId = Undefined, content = Str (str ''hi''),
      fileUrl = Undefined\<rparr>) = Inl ValidationError"
proof -
  have u: "\<not> uuidShape []" by (simp add: uuidShape_def)
  show ?thesis
    using room_and_receiver_exclusive [where isUuid = uuidShape and db = exampleStore
        and auth = aliceAuth and newId = "str ''m1''" and now = 1000
        and q = "\<lparr>q_roomId = Some roomA, q_receiverId = Some bob, q_before = Absent,
                  q_limit = Absent\<rparr>"
        and body = "\<lparr>roomId = Undefined, receiverId = Undefined,
                     content = Str (str ''hi''), fileUrl = Undefined\<rparr>", OF u]
      room_and_receiver_exclusive [where isUuid = uuidShape and db = exampleStore
        and auth = aliceAuth and newId = "str ''m1''" and now = 1000
        and q = "\<lparr>q_roomId = None, q_receiverId = None, q_before = Absent,
                  q_limit = Absent\<rparr>"
        and body = "\<lparr>roomId = Undefined, receiverId = Undefined,
                     content = Str (str ''hi''), fileUrl = Undefined\<rparr>", OF u]
    by simp
qed

text \<open>
  The body \<open>null\<close> is the one JSON value the HTTP path answers with no validation error.
\<close>

lemma post_null_body_throws:
  "messages_POST isUuid newId now db (Some auth) JsonNull = Inl UncaughtTypeError"
  by (simp add: messages_POST_def)

text \<open>
  The claim as the specification words it has message creation reject a payload with both
  ids. Alice posts an object with both to the HTTP path; it is stored as a room message.
\<close>

theorem post_with_both_ids_is_accepted:
  "messages_POST uuidShape (str ''m1'') 1000 exampleStore (Some aliceAuth)
     (JsonObject \<lparr>roomId = Str roomA, receiverId = Str bob, content = Str (str ''hi''),
      fileUrl = Undefined\<rparr>)
   = Inr (exampleStore\<lparr>messages :=
            [\<lparr>msg_id = str ''m1'', msg_content = str ''hi'', msg_fileUrl = None,
              msg_senderId = alice, msg_roomId = Some roomA, msg_receiverId = None,
              msg_createdAt = 1000\<rparr>]\<rparr>,
          \<lparr>cm_id = str ''m1'', cm_content = str ''hi'', cm_fileUrl = None,
           cm_senderId = alice, cm_senderName = str ''Alice'', cm_roomId = Some roomA,
           cm_receiverId = None, cm_createdAt = 1000\<rparr>)"
proof -
  have ne: "str ''hi'' \<noteq> []" by (simp add: str_def)
  have schema: "sendRoomMessageSchema uuidShape
      \<lparr>roomId = Str roomA, receiverId = Str bob, content = Str (str ''hi''),
       fileUrl = Undefined\<rparr>
     = Some \<lparr>rm_roomId = roomA, rm_content = Some (str ''hi''), rm_fileUrl = None\<rparr>"
    by (simp add: sendRoomMessageSchema_def baseMessageSchema_def optionalString_def
        parsedString_def contentOrFileUrl_def truthy_def trim_hi uuidShape_ids ne)
       (simp add: str_def)
  have stored: "storedContent (Some (str ''hi'')) None = str ''hi''"
    by (simp add: storedContent_def sanitize_hi truthy_def ne)
  have db': "createMessage exampleStore m = exampleStore\<lparr>messages := [m]\<rparr>" for m
    by (simp add: createMessage_def exampleStore_def)
  show ?thesis
    by (simp add: messages_POST_def schema findRoom_example stored db' mapMessage_def
        senderName_def findUser_example aliceAuth_def)
qed

text \<open>
  Claim C6, as amended: for a payload that passes the schema, sending a room message fails
  with NotFound on both paths when no room has the id. When the room exists, the socket
  path performs no further check and stores the message for any principal, a private room
  of somebody else included. The HTTP path answers Forbidden exactly when the room is
  private and the caller is not its creator, and otherwise stores the message as the
  socket path does. The history read of that room, for any query that passes its schema,
  answers Forbidden under exactly the same condition: private-room authorization is
  enforced on history reads and on HTTP sends, and not on socket sends.
\<close>

theorem room_send_authorization:
  assumes "sendRoomMessageSchema isUuid payload = Some parsed"
  shows "(findRoom db (rm_roomId parsed) = None \<longrightarrow>
            createRoomMessage isUuid newId now db auth payload = Inl NotFound
          \<and> messages_POST isUuid newId now db (Some auth) (JsonObject payload) = Inl NotFound)
       \<and> (\<forall>room. findRoom db (rm_roomId parsed) = Some room \<longrightarrow>
            (\<exists>db' m. createRoomMessage isUuid newId now db auth payload = Inr (db', m)
                     \<and> length (messages db') = Suc (length (messages db))
                     \<and> cm_senderId m = auth_sub auth
                     \<and> cm_roomId m = Some (rm_roomId parsed))
          \<and> (messages_POST isUuid newId now db (Some auth) (JsonObject payload) = Inl Forbidden
               \<longleftrightarrow> room_isPrivate room \<and> room_creatorId room \<noteq> Some (auth_sub auth))
          \<and> (messages_POST isUuid newId now db (Some auth) (JsonObject payload) \<noteq> Inl Forbidden
               \<longrightarrow>
               messages_POST isUuid newId now db (Some auth) (JsonObject payload) =
               createRoomMessage isUuid newId now db auth payload)
          \<and> (\<forall>q accepted.
                 rm_roomId parsed \<noteq> [] \<and> q_roomId q = Some (rm_roomId parsed) \<and>
                 messageHistoryQuerySchema isUuid q = Some accepted \<longrightarrow>
                 (messages_GET isUuid db (Some auth) q = Inl Forbidden \<longleftrightarrow>
                    room_isPrivate room \<and> room_creatorId room \<noteq> Some (auth_sub auth))))"
proof -
  have rid: "roomId payload = Str (rm_roomId parsed)"
    using assms by (rule room_schema_Some)
  show ?thesis
  proof (cases "findRoom db (rm_roomId parsed)")
    case None
    with assms rid show ?thesis
      by (simp add: createRoomMessage_def messages_POST_def)
  next
    case (Some room)
    then have id: "room_id room = rm_roomId parsed"
      by (auto simp: findRoom_def find_Some_iff)
    have send: "(\<exists>db' m. createRoomMessage isUuid newId now db auth payload = Inr (db', m)
                     \<and> length (messages db') = Suc (length (messages db))
                     \<and> cm_senderId m = auth_sub auth
                     \<and> cm_roomId m = Some (rm_roomId parsed))
          \<and> (messages_POST isUuid newId now db (Some auth) (JsonObject payload) = Inl Forbidden
               \<longleftrightarrow> room_isPrivate room \<and> room_creatorId room \<noteq> Some (auth_sub auth))
          \<and> (messages_POST isUuid newId now db (Some auth) (JsonObject payload) \<noteq> Inl Forbidden
               \<longrightarrow>
               messages_POST isUuid newId now db (Some auth) (JsonObject payload) =
               createRoomMessage isUuid newId now db auth payload)"
      using assms rid Some id
      by (simp add: createRoomMessage_def messages_POST_def Let_def createMessage_def
          mapMessage_def)
    have read: "messages_GET isUuid db (Some auth) q = Inl Forbidden \<longleftrightarrow>
                  room_isPrivate room \<and> room_creatorId room \<noteq> Some (auth_sub auth)"
      if ne: "rm_roomId parsed \<noteq> []" and q: "q_roomId q = Some (rm_roomId parsed)"
        and acc: "messageHistoryQuerySchema isUuid q = Some accepted" for q accepted
    proof -
      from acc q have h: "h_roomId accepted = Some (rm_roomId parsed)"
        by (auto simp: messageHistoryQuerySchema_def Let_def split: if_splits)
      show ?thesis
      proof (cases "room_isPrivate room \<and> room_creatorId room \<noteq> Some (auth_sub auth)")
        case True
        with h ne Some have "roomStep db auth accepted = Inl Forbidden"
          by (simp add: roomStep_def)
        with acc True show ?thesis by (simp add: messages_GET_def)
      next
        case False
        with h ne Some obtain w where "roomStep db auth accepted = Inr w"
          by (auto simp: roomStep_def)
        with acc have "\<exists>page. messages_GET isUuid db (Some auth) q = Inr page"
          by (simp add: messages_GET_def Let_def)
        with False show ?thesis by auto
      qed
    qed
    from send read Some show ?thesis by simp
  qed
qed

lemma hi_schema:
  "sendRoomMessageSchema uuidShape
      \<lparr>roomId = Str roomA, receiverId = v, content = Str (str ''hi''), fileUrl = Undefined\<rparr>
     = Some \<lparr>rm_roomId = roomA, rm_content = Some (str ''hi''), rm_fileUrl = None\<rparr>"
proof -
  have ne: "str ''hi'' \<noteq> []" by (simp add: str_def)
  show ?thesis
    by (simp add: sendRoomMessageSchema_def baseMessageSchema_def optionalString_def
        parsedString_def contentOrFileUrl_def truthy_def trim_hi uuidShape_ids ne)
       (simp add: str_def)
qed

lemma roomA_query_schema:
  "messageHistoryQuerySchema uuidShape
     \<lparr>q_roomId = Some roomA, q_receiverId = None, q_before = Absent, q_limit = Absent\<rparr>
   = Some \<lparr>h_roomId = Some roomA, h_receiverId = None, h_before = None, h_limit = 20\<rparr>"
  by (simp add: messageHistoryQuerySchema_def Let_def truthy_def uuidShape_ids ids_nonempty)

text \<open>
  Bob and the private room Alice created: his socket send is stored, his HTTP send and his
  history read are answered Forbidden. Alice's HTTP send does what her socket send does,
  and her history read is not answered Forbidden.
\<close>

theorem room_send_authorization_witness:
  "\<not> isl (createRoomMessage uuidShape (str ''m1'') 1000 exampleStore bobAuth
       \<lparr>roomId = Str roomA, receiverId = Undefined, content = Str (str ''hi''),
        fileUrl = Undefined\<rparr>)
   \<and> messages_POST uuidShape (str ''m1'') 1000 exampleStore (Some bobAuth)
       (JsonObject \<lparr>roomId = Str roomA, receiverId = Undefined, content = Str (str ''hi''),
        fileUrl = Undefined\<rparr>) = Inl Forbidden
   \<and> messages_GET uuidShape exampleStore (Some bobAuth)
       \<lparr>q_roomId = Some roomA, q_receiverId = None, q_before = Absent, q_limit = Absent\<rparr>
     = Inl Forbidden
   \<and> messages_POST uuidShape (str ''m1'') 1000 exampleStore (Some aliceAuth)
       (JsonObject \<lparr>roomId = Str roomA, receiverId = Undefined, content = Str (str ''hi''),
        fileUrl = Undefined\<rparr>)
     = createRoomMessage uuidShape (str ''m1'') 1000 exampleStore aliceAuth
       \<lparr>roomId = Str roomA, receiverId = Undefined, content = Str (str ''hi''),
        fileUrl = Undefined\<rparr>
   \<and> messages_GET uuidShape exampleStore (Some aliceAuth)
       \<lparr>q_roomId = Some roomA, q_receiverId = None, q_before = Absent, q_limit = Absent\<rparr>
     \<noteq> Inl Forbidden"
proof -
  let ?q = "\<lparr>q_roomId = Some roomA, q_receiverId = None, q_before = Absent,
            q_limit = Absent\<rparr>"
  let ?room = "\<lparr>room_id = roomA, room_isPrivate = True, room_creatorId = Some alice\<rparr>"
  note b = room_send_authorization [OF hi_schema [of Undefined], where db = exampleStore
      and newId = "str ''m1''" and now = 1000 and auth = bobAuth]
  note a = room_send_authorization [OF hi_schema [of Undefined], where db = exampleStore
      and newId = "str ''m1''" and now = 1000 and auth = aliceAuth]
  let ?acc = "\<lparr>h_roomId = Some roomA, h_receiverId = None, h_before = None, h_limit = 20\<rparr>"
  have fr: "findRoom exampleStore
      (rm_roomId \<lparr>rm_roomId = roomA, rm_content = Some (str ''hi''), rm_fileUrl = None\<rparr>)
      = Some ?room"
    by (simp add: findRoom_example)
  note bR = b [THEN conjunct2, rule_format, OF fr]
  note aR = a [THEN conjunct2, rule_format, OF fr]
  note b1 = bR [THEN conjunct1]
  note b2 = bR [THEN conjunct2, THEN conjunct1]
  note b4 = bR [THEN conjunct2, THEN conjunct2, THEN conjunct2, rule_format, of ?q ?acc]
  note a2 = aR [THEN conjunct2, THEN conjunct1]
  note a3 = aR [THEN conjunct2, THEN conjunct2, THEN conjunct1]
  note a4 = aR [THEN conjunct2, THEN conjunct2, THEN conjunct2, rule_format, of ?q ?acc]
  have pre: "rm_roomId \<lparr>rm_roomId = roomA, rm_content = Some (str ''hi''),
        rm_fileUrl = None\<rparr> \<noteq> [] \<and>
      q_roomId ?q = Some (rm_roomId \<lparr>rm_roomId = roomA, rm_content = Some (str ''hi''),
        rm_fileUrl = None\<rparr>) \<and>
      messageHistoryQuerySchema uuidShape ?q = Some ?acc"
    by (simp add: roomA_query_schema ids_nonempty)
  from b1 have s1: "\<not> isl (createRoomMessage uuidShape (str ''m1'') 1000 exampleStore bobAuth
       \<lparr>roomId = Str roomA, receiverId = Undefined, content = Str (str ''hi''),
        fileUrl = Undefined\<rparr>)"
    by auto
  from b2 have s2: "messages_POST uuidShape (str ''m1'') 1000 exampleStore (Some bobAuth)
       (JsonObject \<lparr>roomId = Str roomA, receiverId = Undefined, content = Str (str ''hi''),
        fileUrl = Undefined\<rparr>) = Inl Forbidden"
    by (simp add: bobAuth_def ids_distinct)
  from b4 [OF pre] have s3: "messages_GET uuidShape exampleStore (Some bobAuth) ?q = Inl Forbidden"
    by (simp add: bobAuth_def ids_distinct)
  from a2 have "messages_POST uuidShape (str ''m1'') 1000 exampleStore (Some aliceAuth)
       (JsonObject \<lparr>roomId = Str roomA, receiverId = Undefined, content = Str (str ''hi''),
        fileUrl = Undefined\<rparr>) \<noteq> Inl Forbidden"
    by (simp add: aliceAuth_def)
  with a3 have s4: "messages_POST uuidShape (str ''m1'') 1000 exampleStore (Some aliceAuth)
       (JsonObject \<lparr>roomId = Str roomA, receiverId = Undefined, content = Str (str ''hi''),
        fileUrl = Undefined\<rparr>)
     = createRoomMessage uuidShape (str ''m1'') 1000 exampleStore aliceAuth
       \<lparr>roomId = Str roomA, receiverId = Undefined, content = Str (str ''hi''),
        fileUrl = Undefined\<rparr>"
    by (rule mp)
  from a4 [OF pre] have s5: "messages_GET uuidShape exampleStore (Some aliceAuth) ?q
      \<noteq> Inl Forbidden"
    by (simp add: aliceAuth_def)
  from s1 s2 s3 s4 s5 show ?thesis by (intro conjI)
qed

text \<open>
  The claim as the specification words it has no send path check more than existence.
  Bob posts to the private room Alice created: the HTTP path answers Forbidden.
\<close>

theorem post_to_foreign_private_room_forbidden:
  "messages_POST uuidShape (str ''m1'') 1000 exampleStore (Some bobAuth)
     (JsonObject \<lparr>roomId = Str roomA, receiverId = Undefined, content = Str (str ''hi''),
      fileUrl = Undefined\<rparr>)
   = Inl Forbidden"
proof -
  have ne: "str ''hi'' \<noteq> []" by (simp add: str_def)
  have schema: "sendRoomMessageSchema uuidShape
      \<lparr>roomId = Str roomA, receiverId = Undefined, content = Str (str ''hi''),
       fileUrl = Undefined\<rparr>
     = Some \<lparr>rm_roomId = roomA, rm_content = Some (str ''hi''), rm_fileUrl = None\<rparr>"
    by (simp add: sendRoomMessageSchema_def baseMessageSchema_def optionalString_def
        parsedString_def contentOrFileUrl_def truthy_def trim_hi uuidShape_ids ne)
       (simp add: str_def)
  show ?thesis
    by (simp add: messages_POST_def schema findRoom_example bobAuth_def ids_distinct)
qed


section \<open>History theorems\<close>

lemma set_findMany: "set (findMany db w n) \<subseteq> {m \<in> set (messages db). whereMatches w m}"
proof -
  have "set (findMany db w n) \<subseteq>
        set (sort_key (\<lambda>m. - msg_createdAt m) (filter (whereMatches w) (messages db)))"
    unfolding findMany_def by (rule set_take_subset)
  then show ?thesis by auto
qed

lemma GET_page_rows:
  assumes "messages_GET isUuid db (Some auth) q = Inr page"
  obtains parsed w where
    "messageHistoryQuerySchema isUuid q = Some parsed"
    "roomStep db auth parsed = Inr w"
    "set (page_messages page) \<subseteq>
       mapMessage db ` {m \<in> set (messages db).
          whereMatches (beforeStep parsed (receiverStep auth parsed w)) m}"
proof -
  from assms obtain parsed where p: "messageHistoryQuerySchema isUuid q = Some parsed"
    by (auto simp: messages_GET_def split: option.splits)
  with assms obtain w where w: "roomStep db auth parsed = Inr w"
    by (auto simp: messages_GET_def split: sum.splits)
  let ?rows = "findMany db (beforeStep parsed (receiverStep auth parsed w)) (h_limit parsed + 1)"
  from assms p w have
    "page_messages page = map (mapMessage db)
        (rev (if int (length ?rows) > h_limit parsed then take (nat (h_limit parsed)) ?rows
              else ?rows))"
    by (auto simp: messages_GET_def Let_def)
  then have "set (page_messages page) \<subseteq> mapMessage db ` set ?rows"
    using set_take_subset [of "nat (h_limit parsed)" ?rows] by auto
  also have "\<dots> \<subseteq> mapMessage db ` {m \<in> set (messages db).
          whereMatches (beforeStep parsed (receiverStep auth parsed w)) m}"
    using set_findMany by (intro image_mono)
  finally show ?thesis using p w that by blast
qed

lemma schema_fields:
  assumes "messageHistoryQuerySchema isUuid q = Some parsed"
  shows "h_roomId parsed = q_roomId q" "h_receiverId parsed = q_receiverId q"
    "truthy (q_roomId q) \<noteq> truthy (q_receiverId q)"
    "\<And>x. q_receiverId q = Some x \<Longrightarrow> isUuid x"
  using assms by (auto simp: messageHistoryQuerySchema_def Let_def split: if_splits)

lemma before_keeps: "w_OR (beforeStep parsed w) = w_OR w" "w_roomId (beforeStep parsed w) = w_roomId w"
  by (simp_all add: beforeStep_def split: option.splits)

lemma receiver_keeps: "w_roomId (receiverStep auth parsed w) = w_roomId w"
  by (simp add: receiverStep_def split: option.splits)

lemma receiver_sets:
  "h_receiverId parsed = Some x \<Longrightarrow> x \<noteq> [] \<Longrightarrow>
   w_OR (receiverStep auth parsed w) = Some [(auth_sub auth, x), (x, auth_sub auth)]"
  by (simp add: receiverStep_def)

lemma roomStep_sets:
  "roomStep db auth parsed = Inr w \<Longrightarrow> truthy (h_roomId parsed) \<Longrightarrow> w_roomId w \<noteq> None"
  by (auto simp: roomStep_def truthy_def emptyWhere_def split: option.splits if_splits)

text \<open>
  Claim C10: the history of a direct conversation is scoped to its two participants. Every
  message that \<open>GET /api/messages?receiverId=x\<close> returns to an authenticated caller has
  the caller as sender and \<open>x\<close> as receiver, or \<open>x\<close> as sender and the caller as receiver;
  and whatever the query, a returned message without a room (a direct message) has the
  caller as its sender or its receiver. The UUID check rejects the empty string.
\<close>

theorem direct_history_scoped:
  assumes "\<not> isUuid []" and "messages_GET isUuid db (Some auth) q = Inr page"
  shows "(\<forall>x. q_receiverId q = Some x \<longrightarrow>
            (\<forall>m \<in> set (page_messages page).
               (cm_senderId m = auth_sub auth \<and> cm_receiverId m = Some x) \<or>
               (cm_senderId m = x \<and> cm_receiverId m = Some (auth_sub auth))))
       \<and> (\<forall>m \<in> set (page_messages page). cm_roomId m = None \<longrightarrow>
            cm_senderId m = auth_sub auth \<or> cm_receiverId m = Some (auth_sub auth))"
proof -
  from assms(2) obtain parsed w where
    p: "messageHistoryQuerySchema isUuid q = Some parsed" and
    w: "roomStep db auth parsed = Inr w" and
    sub: "set (page_messages page) \<subseteq> mapMessage db ` {m \<in> set (messages db).
          whereMatches (beforeStep parsed (receiverStep auth parsed w)) m}"
    by (rule GET_page_rows)
  let ?w = "beforeStep parsed (receiverStep auth parsed w)"
  have direct: "(cm_senderId m = auth_sub auth \<and> cm_receiverId m = Some x) \<or>
                (cm_senderId m = x \<and> cm_receiverId m = Some (auth_sub auth))"
    if x: "q_receiverId q = Some x" and m: "m \<in> set (page_messages page)" for x m
  proof -
    from p x have "isUuid x" by (rule schema_fields(4))
    with assms(1) have "x \<noteq> []" by auto
    moreover from p x have "h_receiverId parsed = Some x" by (simp add: schema_fields(2))
    ultimately have "w_OR ?w = Some [(auth_sub auth, x), (x, auth_sub auth)]"
      by (simp add: before_keeps receiver_sets)
    moreover from m sub obtain r where "m = mapMessage db r" "whereMatches ?w r" by auto
    ultimately show ?thesis by (auto simp: whereMatches_def mapMessage_def)
  qed
  have roomless: "cm_senderId m = auth_sub auth \<or> cm_receiverId m = Some (auth_sub auth)"
    if m: "m \<in> set (page_messages page)" and n: "cm_roomId m = None" for m
  proof (cases "truthy (q_roomId q)")
    case True
    with p w have "w_roomId w \<noteq> None" by (simp add: roomStep_sets schema_fields(1))
    then have "w_roomId ?w \<noteq> None" by (simp add: before_keeps receiver_keeps)
    moreover from m sub obtain r where "m = mapMessage db r" "whereMatches ?w r" by auto
    ultimately have "cm_roomId m \<noteq> None" by (auto simp: whereMatches_def mapMessage_def)
    with n show ?thesis by simp
  next
    case False
    with schema_fields(3) [OF p] have "truthy (q_receiverId q)" by simp
    then obtain x where "q_receiverId q = Some x" by (auto simp: truthy_def split: option.splits)
    from direct [OF this m] show ?thesis by auto
  qed
  from direct roomless show ?thesis by blast
qed

text \<open>
  A store with four direct messages and one room message. Alice reads her conversation with
  Bob and receives its two messages; the messages between Bob and Carol and between Carol
  and Alice are not returned.
\<close>

theorem direct_history_scoped_witness:
  "messages_GET uuidShape
     (exampleStore\<lparr>messages :=
        [\<lparr>msg_id = str ''m1'', msg_content = str ''a'', msg_fileUrl = None, msg_senderId = alice,
          msg_roomId = None, msg_receiverId = Some bob, msg_createdAt = 1\<rparr>,
         \<lparr>msg_id = str ''m2'', msg_content = str ''b'', msg_fileUrl = None, msg_senderId = bob,
          msg_roomId = None, msg_receiverId = Some carol, msg_createdAt = 2\<rparr>,
         \<lparr>msg_id = str ''m3'', msg_content = str ''c'', msg_fileUrl = None, msg_senderId = bob,
          msg_roomId = None, msg_receiverId = Some alice, msg_createdAt = 3\<rparr>,
         \<lparr>msg_id = str ''m4'', msg_content = str ''d'', msg_fileUrl = None, msg_senderId = carol,
          msg_roomId = None, msg_receiverId = Some alice, msg_createdAt = 4\<rparr>,
         \<lparr>msg_id = str ''m5'', msg_content = str ''e'', msg_fileUrl = None, msg_senderId = alice,
          msg_roomId = Some roomA, msg_receiverId = None, msg_createdAt = 5\<rparr>]\<rparr>)
     (Some aliceAuth)
     \<lparr>q_roomId = None, q_receiverId = Some bob, q_before = Absent, q_limit = Absent\<rparr>
   = Inr \<lparr>page_messages =
        [\<lparr>cm_id = str ''m1'', cm_content = str ''a'', cm_fileUrl = None, cm_senderId = alice,
          cm_senderName = str ''Alice'', cm_roomId = None, cm_receiverId = Some bob,
          cm_createdAt = 1\<rparr>,
         \<lparr>cm_id = str ''m3'', cm_content = str ''c'', cm_fileUrl = None, cm_senderId = bob,
          cm_senderName = str ''Bob'', cm_roomId = None, cm_receiverId = Some alice,
          cm_createdAt = 3\<rparr>],
       page_nextBefore = None\<rparr>"
proof -
  let ?db = "exampleStore\<lparr>messages :=
        [\<lparr>msg_id = str ''m1'', msg_content = str ''a'', msg_fileUrl = None, msg_senderId = alice,
          msg_roomId = None, msg_receiverId = Some bob, msg_createdAt = 1\<rparr>,
         \<lparr>msg_id = str ''m2'', msg_content = str ''b'', msg_fileUrl = None, msg_senderId = bob,
          msg_roomId = None, msg_receiverId = Some carol, msg_createdAt = 2\<rparr>,
         \<lparr>msg_id = str ''m3'', msg_content = str ''c'', msg_fileUrl = None, msg_senderId = bob,
          msg_roomId = None, msg_receiverId = Some alice, msg_createdAt = 3\<rparr>,
         \<lparr>msg_id = str ''m4'', msg_content = str ''d'', msg_fileUrl = None, msg_senderId = carol,
          msg_roomId = None, msg_receiverId = Some alice, msg_createdAt = 4\<rparr>,
         \<lparr>msg_id = str ''m5'', msg_content = str ''e'', msg_fileUrl = None, msg_senderId = alice,
          msg_roomId = Some roomA, msg_receiverId = None, msg_createdAt = 5\<rparr>]\<rparr>"
  let ?q = "\<lparr>q_roomId = None, q_receiverId = Some bob, q_before = Absent, q_limit = Absent\<rparr>"
  have u: "\<not> uuidShape []" by (simp add: uuidShape_def)
  have schema: "messageHistoryQuerySchema uuidShape ?q =
      Some \<lparr>h_roomId = None, h_receiverId = Some bob, h_before = None, h_limit = 20\<rparr>"
    by (simp add: messageHistoryQuerySchema_def Let_def truthy_def uuidShape_ids ids_nonempty)
  have page: "messages_GET uuidShape ?db (Some aliceAuth) ?q = Inr \<lparr>page_messages =
        [\<lparr>cm_id = str ''m1'', cm_content = str ''a'', cm_fileUrl = None, cm_senderId = alice,
          cm_senderName = str ''Alice'', cm_roomId = None, cm_receiverId = Some bob,
          cm_createdAt = 1\<rparr>,
         \<lparr>cm_id = str ''m3'', cm_content = str ''c'', cm_fileUrl = None, cm_senderId = bob,
          cm_senderName = str ''Bob'', cm_roomId = None, cm_receiverId = Some alice,
          cm_createdAt = 3\<rparr>],
       page_nextBefore = None\<rparr>"
    by (simp add: messages_GET_def schema roomStep_def receiverStep_def beforeStep_def
        emptyWhere_def findMany_def whereMatches_def Let_def aliceAuth_def ids_nonempty
        ids_distinct mapMessage_def senderName_def findUser_example)
  from direct_history_scoped [OF u page] page show ?thesis by simp
qed

section \<open>Pagination theorems\<close>

lemma insort_key_greatest:
  "\<forall>y \<in> set ys. g y < g x \<Longrightarrow> insort_key g x ys = ys @ [x]"
  for g :: "'a \<Rightarrow> int"
  by (induction ys) auto

lemma sort_desc_of_ascending:
  "sorted_wrt (<) (map f ms) \<Longrightarrow> sort_key (\<lambda>m. - f m) ms = rev ms"
  for f :: "'a \<Rightarrow> int"
proof (induction ms)
  case Nil
  then show ?case by simp
next
  case (Cons x xs)
  then have "\<forall>y \<in> set (rev xs). - f y < - f x" by auto
  then have "insort_key (\<lambda>m. - f m) x (rev xs) = rev xs @ [x]"
    by (rule insort_key_greatest)
  with Cons show ?case by simp
qed

lemma sorted_desc_rev:
  "sorted (map (\<lambda>m. - f m) xs) \<Longrightarrow> sorted (rev (map f xs))"
  for f :: "'a \<Rightarrow> int"
  by (induction xs) (auto simp: sorted_append)

lemma filter_below_nth:
  fixes f :: "'a \<Rightarrow> int"
  assumes "sorted_wrt (<) (map f ms)" and "k < length ms"
  shows "filter (\<lambda>m. f m < f (ms ! k)) ms = take k ms"
proof -
  have low: "f x < f (ms ! k)" if "x \<in> set (take k ms)" for x
  proof -
    from that obtain i where i: "i < k" "i < length ms" "x = ms ! i"
      by (auto simp: in_set_conv_nth)
    with assms have "map f ms ! i < map f ms ! k"
      by (intro sorted_wrt_nth_less) auto
    with i assms(2) show ?thesis by simp
  qed
  have high: "\<not> f x < f (ms ! k)" if "x \<in> set (drop k ms)" for x
  proof -
    from that obtain j where "j < length ms - k" "x = ms ! (k + j)"
      by (auto simp: in_set_conv_nth)
    then have "k + j < length ms" "x = ms ! (k + j)" by auto
    then obtain i where i: "k + i < length ms" "x = ms ! (k + i)" by blast
    have "map f ms ! k \<le> map f ms ! (k + i)"
    proof (cases "i = 0")
      case True
      then show ?thesis by simp
    next
      case False
      with assms i have "map f ms ! k < map f ms ! (k + i)"
        by (intro sorted_wrt_nth_less) auto
      then show ?thesis by simp
    qed
    with i assms(2) show ?thesis by simp
  qed
  have "filter (\<lambda>m. f m < f (ms ! k)) ms =
        filter (\<lambda>m. f m < f (ms ! k)) (take k ms) @ filter (\<lambda>m. f m < f (ms ! k)) (drop k ms)"
    by (metis append_take_drop_id filter_append)
  also have "filter (\<lambda>m. f m < f (ms ! k)) (take k ms) = take k ms"
    using low by (simp add: filter_id_conv)
  also have "filter (\<lambda>m. f m < f (ms ! k)) (drop k ms) = []"
    using high by (simp add: filter_empty_conv)
  finally show ?thesis by simp
qed

text \<open>The page the handler computes from the rows that match, for any accepted query.\<close>

lemma GET_page:
  assumes "messages_GET isUuid db (Some auth) q = Inr page"
  obtains parsed w where
    "messageHistoryQuerySchema isUuid q = Some parsed"
    "roomStep db auth parsed = Inr w"
    "1 \<le> h_limit parsed" "h_limit parsed \<le> 50"
    "page_messages page = map (mapMessage db) (rev (take (nat (h_limit parsed))
        (sort_key (\<lambda>m. - msg_createdAt m)
           (filter (whereMatches (beforeStep parsed (receiverStep auth parsed w)))
              (messages db)))))"
    "page_nextBefore page =
       (if nat (h_limit parsed) <
           length (filter (whereMatches (beforeStep parsed (receiverStep auth parsed w)))
              (messages db))
        then Some (cm_createdAt (hd (page_messages page))) else None)"
proof -
  from assms obtain parsed where p: "messageHistoryQuerySchema isUuid q = Some parsed"
    by (auto simp: messages_GET_def split: option.splits)
  with assms obtain w where w: "roomStep db auth parsed = Inr w"
    by (auto simp: messages_GET_def split: sum.splits)
  from p have lim: "1 \<le> h_limit parsed" "h_limit parsed \<le> 50"
    by (auto simp: messageHistoryQuerySchema_def Let_def split: if_splits coerced.splits)
  define L where "L = nat (h_limit parsed)"
  define S where "S = sort_key (\<lambda>m. - msg_createdAt m)
      (filter (whereMatches (beforeStep parsed (receiverStep auth parsed w))) (messages db))"
  let ?R = "findMany db (beforeStep parsed (receiverStep auth parsed w)) (h_limit parsed + 1)"
  from lim have L: "0 < L" "h_limit parsed = int L" "nat (h_limit parsed + 1) = Suc L"
    by (auto simp: L_def)
  have R_eq: "?R = take (Suc L) S"
    by (simp only: findMany_def S_def L(3))
  have more: "h_limit parsed < int (length ?R) \<longleftrightarrow> L < length S"
    unfolding R_eq by (auto simp: L(2))
  have tk: "take (nat (h_limit parsed)) ?R = take L S"
    unfolding R_eq by (simp add: L_def min_def)
  have ab: "page_messages page = map (mapMessage db) (rev (take L S)) \<and>
      page_nextBefore page =
      (if L < length S then Some (cm_createdAt (hd (page_messages page))) else None)"
  proof (cases "L < length S")
    case True
    then have hm: "h_limit parsed < int (length ?R)" by (simp add: more)
    from True L have ne: "take L S \<noteq> []" by auto
    then have ne': "take (nat (h_limit parsed)) ?R \<noteq> []" by (simp add: tk)
    from assms p w hm ne' have "page =
        \<lparr>page_messages = map (mapMessage db) (rev (take (nat (h_limit parsed)) ?R)),
         page_nextBefore = Some (msg_createdAt (last (take (nat (h_limit parsed)) ?R)))\<rparr>"
      by (simp add: messages_GET_def Let_def split: list.splits)
    then have page: "page = \<lparr>page_messages = map (mapMessage db) (rev (take L S)),
         page_nextBefore = Some (msg_createdAt (last (take L S)))\<rparr>"
      by (simp only: tk)
    from ne have "hd (map (mapMessage db) (rev (take L S))) = mapMessage db (last (take L S))"
      by (simp add: hd_map hd_rev)
    then have "cm_createdAt (hd (map (mapMessage db) (rev (take L S)))) =
               msg_createdAt (last (take L S))"
      by (simp add: mapMessage_def)
    with True show ?thesis by (simp add: page)
  next
    case False
    then have hm: "\<not> h_limit parsed < int (length ?R)" by (simp add: more)
    from False have all: "?R = take L S" unfolding R_eq by simp
    from assms p w hm have "page =
        \<lparr>page_messages = map (mapMessage db) (rev ?R), page_nextBefore = None\<rparr>"
      by (simp add: messages_GET_def Let_def)
    then have "page = \<lparr>page_messages = map (mapMessage db) (rev (take L S)),
        page_nextBefore = None\<rparr>"
      by (simp only: all)
    with False show ?thesis by simp
  qed
  then have a: "page_messages page = map (mapMessage db) (rev (take L S))"
    and b: "page_nextBefore page =
      (if L < length S then Some (cm_createdAt (hd (page_messages page))) else None)"
    by simp_all
  have a': "page_messages page = map (mapMessage db) (rev (take (nat (h_limit parsed))
        (sort_key (\<lambda>m. - msg_createdAt m)
           (filter (whereMatches (beforeStep parsed (receiverStep auth parsed w)))
              (messages db)))))"
    using a by (simp only: L_def S_def)
  have "page_nextBefore page =
       (if nat (h_limit parsed) < length (sort_key (\<lambda>m. - msg_createdAt m)
              (filter (whereMatches (beforeStep parsed (receiverStep auth parsed w)))
              (messages db)))
        then Some (cm_createdAt (hd (page_messages page))) else None)"
    using b by (simp only: L_def S_def)
  then have b': "page_nextBefore page =
       (if nat (h_limit parsed) <
           length (filter (whereMatches (beforeStep parsed (receiverStep auth parsed w)))
              (messages db))
        then Some (cm_createdAt (hd (page_messages page))) else None)"
    by (simp only: length_sort)
  from p w lim a' b' show ?thesis by (rule that)
qed


lemma GET_succeeds:
  assumes "messageHistoryQuerySchema isUuid q = Some parsed"
    and "roomStep db auth parsed = Inr w"
  shows "\<exists>page. messages_GET isUuid db (Some auth) q = Inr page"
  using assms by (simp add: messages_GET_def Let_def)

lemma room_where_filter:
  "filter (whereMatches \<lparr>w_roomId = Some rid, w_OR = None, w_createdAt_lt = None\<rparr>) xs =
     filter (\<lambda>m. msg_roomId m = Some rid) xs"
  "filter (whereMatches \<lparr>w_roomId = Some rid, w_OR = None, w_createdAt_lt = Some t\<rparr>) xs =
     filter (\<lambda>m. msg_createdAt m < t) (filter (\<lambda>m. msg_roomId m = Some rid) xs)"
  by (induction xs) (simp_all add: whereMatches_def)

lemma roomStep_allowed:
  assumes "rid \<noteq> []" and "findRoom db rid = Some room"
    and "\<not> (room_isPrivate room \<and> room_creatorId room \<noteq> Some (auth_sub auth))"
    and "h_roomId parsed = Some rid"
  shows "roomStep db auth parsed = Inr \<lparr>w_roomId = Some rid, w_OR = None, w_createdAt_lt = None\<rparr>"
proof -
  from assms(2) have "room_id room = rid"
    by (auto simp: findRoom_def find_Some_iff)
  with assms show ?thesis
    by (auto simp: roomStep_def emptyWhere_def)
qed

lemma room_query_schema:
  assumes "isUuid rid" and "rid \<noteq> []" and "1 \<le> L" and "L \<le> 50" and "b \<noteq> Malformed"
  shows "messageHistoryQuerySchema isUuid
           \<lparr>q_roomId = Some rid, q_receiverId = None, q_before = b, q_limit = Given (int L)\<rparr>
         = Some \<lparr>h_roomId = Some rid, h_receiverId = None,
                 h_before = (case b of Given t \<Rightarrow> Some t | _ \<Rightarrow> None), h_limit = int L\<rparr>"
  using assms by (simp add: messageHistoryQuerySchema_def Let_def truthy_def)

text \<open>
  Two pages of a room whose messages have strictly ascending time stamps, for any limit
  \<open>L\<close> and any number of messages above \<open>L\<close> and up to \<open>2 * L\<close>.
\<close>

lemma two_pages:
  fixes L :: nat
  assumes u: "isUuid rid" "rid \<noteq> []"
    and room: "findRoom db rid = Some room"
      "\<not> (room_isPrivate room \<and> room_creatorId room \<noteq> Some (auth_sub auth))"
    and ms: "filter (\<lambda>m. msg_roomId m = Some rid) (messages db) = ms"
      "sorted_wrt (<) (map msg_createdAt ms)"
    and len: "L < length ms" "length ms \<le> 2 * L" "1 \<le> L" "L \<le> 50"
  shows "\<exists>p1 p2 t.
      messages_GET isUuid db (Some auth)
        \<lparr>q_roomId = Some rid, q_receiverId = None, q_before = Absent,
         q_limit = Given (int L)\<rparr> = Inr p1
    \<and> page_nextBefore p1 = Some t
    \<and> messages_GET isUuid db (Some auth)
        \<lparr>q_roomId = Some rid, q_receiverId = None, q_before = Given t,
         q_limit = Given (int L)\<rparr> = Inr p2
    \<and> page_nextBefore p2 = None
    \<and> page_messages p1 = map (mapMessage db) (drop (length ms - L) ms)
    \<and> page_messages p2 = map (mapMessage db) (take (length ms - L) ms)"
proof -
  define k where "k = length ms - L"
  define t where "t = msg_createdAt (ms ! k)"
  let ?q1 = "\<lparr>q_roomId = Some rid, q_receiverId = None, q_before = Absent,
         q_limit = Given (int L)\<rparr>"
  let ?q2 = "\<lparr>q_roomId = Some rid, q_receiverId = None, q_before = Given t,
         q_limit = Given (int L)\<rparr>"
  let ?d1 = "\<lparr>h_roomId = Some rid, h_receiverId = None, h_before = None, h_limit = int L\<rparr>"
  let ?d2 = "\<lparr>h_roomId = Some rid, h_receiverId = None, h_before = Some t, h_limit = int L\<rparr>"
  let ?w = "\<lparr>w_roomId = Some rid, w_OR = None, w_createdAt_lt = None\<rparr>"
  from len have k: "k < length ms" "k \<le> L" "0 < k" by (auto simp: k_def)
  have s1: "messageHistoryQuerySchema isUuid ?q1 = Some ?d1"
    using room_query_schema [where isUuid = isUuid and rid = rid and L = L and b = Absent]
      u len(3,4) by simp
  have s2: "messageHistoryQuerySchema isUuid ?q2 = Some ?d2"
    using room_query_schema [where isUuid = isUuid and rid = rid and L = L and b = "Given t"]
      u len(3,4) by simp
  have r1: "roomStep db auth ?d1 = Inr ?w"
    using u(2) room by (rule roomStep_allowed) simp
  have r2: "roomStep db auth ?d2 = Inr ?w"
    using u(2) room by (rule roomStep_allowed) simp
  have W1: "beforeStep ?d1 (receiverStep auth ?d1 ?w) = ?w"
    by (simp add: beforeStep_def receiverStep_def)
  have W2: "beforeStep ?d2 (receiverStep auth ?d2 ?w) =
      \<lparr>w_roomId = Some rid, w_OR = None, w_createdAt_lt = Some t\<rparr>"
    by (simp add: beforeStep_def receiverStep_def)
  have m1: "filter (whereMatches ?w) (messages db) = ms"
    by (simp add: room_where_filter ms(1))
  have m2: "filter (whereMatches \<lparr>w_roomId = Some rid, w_OR = None,
      w_createdAt_lt = Some t\<rparr>) (messages db) = take k ms"
    using filter_below_nth [OF ms(2) k(1)] by (simp add: room_where_filter ms(1) t_def)
  have sorted_take: "sorted_wrt (<) (map msg_createdAt (take k ms))"
    using ms(2) by (simp add: take_map [symmetric] sorted_wrt_take)
  from GET_succeeds [OF s1 r1] obtain p1 where
    p1: "messages_GET isUuid db (Some auth) ?q1 = Inr p1" by blast
  from GET_succeeds [OF s2 r2] obtain p2 where
    p2: "messages_GET isUuid db (Some auth) ?q2 = Inr p2" by blast
  from p1 obtain d w where
    "messageHistoryQuerySchema isUuid ?q1 = Some d" "roomStep db auth d = Inr w" and
    pm1: "page_messages p1 = map (mapMessage db) (rev (take (nat (h_limit d))
        (sort_key (\<lambda>m. - msg_createdAt m)
           (filter (whereMatches (beforeStep d (receiverStep auth d w))) (messages db)))))" and
    pn1: "page_nextBefore p1 =
       (if nat (h_limit d) <
           length (filter (whereMatches (beforeStep d (receiverStep auth d w))) (messages db))
        then Some (cm_createdAt (hd (page_messages p1))) else None)"
    by (rule GET_page)
  with s1 r1 have dw: "d = ?d1" "w = ?w" by simp_all
  have a1: "page_messages p1 = map (mapMessage db) (drop k ms)"
    using pm1 unfolding dw W1 m1 sort_desc_of_ascending [OF ms(2)]
    by (simp add: take_rev k_def)
  from k(1) have "hd (drop k ms) = ms ! k" by (simp add: hd_drop_conv_nth)
  moreover from k(1) have "drop k ms \<noteq> []" by simp
  ultimately have "cm_createdAt (hd (page_messages p1)) = t"
    by (simp add: a1 hd_map mapMessage_def t_def)
  with pn1 len(1) have b1: "page_nextBefore p1 = Some t"
    unfolding dw W1 m1 by simp
  from p2 obtain d' w' where
    "messageHistoryQuerySchema isUuid ?q2 = Some d'" "roomStep db auth d' = Inr w'" and
    pm2: "page_messages p2 = map (mapMessage db) (rev (take (nat (h_limit d'))
        (sort_key (\<lambda>m. - msg_createdAt m)
           (filter (whereMatches (beforeStep d' (receiverStep auth d' w'))) (messages db)))))" and
    pn2: "page_nextBefore p2 =
       (if nat (h_limit d') <
           length (filter (whereMatches (beforeStep d' (receiverStep auth d' w'))) (messages db))
        then Some (cm_createdAt (hd (page_messages p2))) else None)"
    by (rule GET_page)
  with s2 r2 have dw': "d' = ?d2" "w' = ?w" by simp_all
  have a2: "page_messages p2 = map (mapMessage db) (take k ms)"
    using pm2 k(1,2) unfolding dw' W2 m2 sort_desc_of_ascending [OF sorted_take]
    by simp
  from pn2 k(1,2) have b2: "page_nextBefore p2 = None"
    unfolding dw' W2 m2 by simp
  from p1 b1 p2 b2 a1 a2 show ?thesis
    unfolding k_def by blast
qed


lemma createdAt_mapMessage:
  "map cm_createdAt (map (mapMessage db) ms) = map msg_createdAt ms"
  by (induction ms) (simp_all add: mapMessage_def)

lemma ascending_pages:
  assumes "sorted_wrt (<) (map msg_createdAt ms)"
  shows "distinct (map (mapMessage db) ms)"
    and "sorted_wrt (<) (map cm_createdAt (map (mapMessage db) ms))"
proof -
  from assms show "sorted_wrt (<) (map cm_createdAt (map (mapMessage db) ms))"
    by (simp only: createdAt_mapMessage)
  from assms have "distinct (map msg_createdAt ms)"
    by (simp add: strict_sorted_iff)
  then have "distinct (map cm_createdAt (map (mapMessage db) ms))"
    by (simp only: createdAt_mapMessage)
  then show "distinct (map (mapMessage db) ms)"
    unfolding distinct_map [of cm_createdAt "map (mapMessage db) ms"] by (rule conjunct1)
qed

text \<open>
  Claim C4. For every accepted history query the page holds the matching rows in descending
  order of creation time, cut to \<open>limit\<close> rows (the fetch takes \<open>limit + 1\<close> and the extra
  row is dropped) and reversed, so the page is ascending; \<open>nextBefore\<close> is the creation
  time of the oldest row of the page exactly when more than \<open>limit\<close> rows match, and
  none otherwise. Consequently, for a readable room with 25 messages of strictly ascending
  creation times, the page of limit 20 holds the 20 newest and names a cursor, the page of
  limit 20 before that cursor holds the other 5 and names no cursor, and the second page
  followed by the first is the list of all 25 messages, without duplicates and ascending.
\<close>

theorem history_pagination:
  "(\<forall>page. messages_GET isUuid db (Some auth) q = Inr page \<longrightarrow>
      (\<exists>parsed w.
          messageHistoryQuerySchema isUuid q = Some parsed
        \<and> roomStep db auth parsed = Inr w
        \<and> page_messages page = map (mapMessage db) (rev (take (nat (h_limit parsed))
            (sort_key (\<lambda>m. - msg_createdAt m)
               (filter (whereMatches (beforeStep parsed (receiverStep auth parsed w)))
                  (messages db)))))
        \<and> page_nextBefore page =
            (if nat (h_limit parsed) <
                length (filter (whereMatches (beforeStep parsed (receiverStep auth parsed w)))
                  (messages db))
             then Some (cm_createdAt (hd (page_messages page))) else None))
      \<and> sorted (map cm_createdAt (page_messages page)))
   \<and> (isUuid rid \<and> rid \<noteq> [] \<and> findRoom db rid = Some room
      \<and> \<not> (room_isPrivate room \<and> room_creatorId room \<noteq> Some (auth_sub auth))
      \<and> length (filter (\<lambda>m. msg_roomId m = Some rid) (messages db)) = 25
      \<and> sorted_wrt (<) (map msg_createdAt (filter (\<lambda>m. msg_roomId m = Some rid) (messages db)))
      \<longrightarrow>
      (\<exists>p1 p2 t.
          messages_GET isUuid db (Some auth)
            \<lparr>q_roomId = Some rid, q_receiverId = None, q_before = Absent,
             q_limit = Given 20\<rparr> = Inr p1
        \<and> page_nextBefore p1 = Some t
        \<and> messages_GET isUuid db (Some auth)
            \<lparr>q_roomId = Some rid, q_receiverId = None, q_before = Given t,
             q_limit = Given 20\<rparr> = Inr p2
        \<and> page_nextBefore p2 = None
        \<and> length (page_messages p1) = 20
        \<and> length (page_messages p2) = 5
        \<and> page_messages p2 @ page_messages p1 =
            map (mapMessage db) (filter (\<lambda>m. msg_roomId m = Some rid) (messages db))
        \<and> distinct (page_messages p2 @ page_messages p1)
        \<and> sorted_wrt (<) (map cm_createdAt (page_messages p2 @ page_messages p1))))"
proof (intro conjI allI impI)
  fix page
  assume g: "messages_GET isUuid db (Some auth) q = Inr page"
  then obtain parsed w where
    p: "messageHistoryQuerySchema isUuid q = Some parsed" and
    w: "roomStep db auth parsed = Inr w" and
    a: "page_messages page = map (mapMessage db) (rev (take (nat (h_limit parsed))
        (sort_key (\<lambda>m. - msg_createdAt m)
           (filter (whereMatches (beforeStep parsed (receiverStep auth parsed w)))
              (messages db)))))" and
    b: "page_nextBefore page =
       (if nat (h_limit parsed) <
           length (filter (whereMatches (beforeStep parsed (receiverStep auth parsed w)))
              (messages db))
        then Some (cm_createdAt (hd (page_messages page))) else None)"
    by (rule GET_page)
  from p w a b show "\<exists>parsed w.
          messageHistoryQuerySchema isUuid q = Some parsed
        \<and> roomStep db auth parsed = Inr w
        \<and> page_messages page = map (mapMessage db) (rev (take (nat (h_limit parsed))
            (sort_key (\<lambda>m. - msg_createdAt m)
               (filter (whereMatches (beforeStep parsed (receiverStep auth parsed w)))
                  (messages db)))))
        \<and> page_nextBefore page =
            (if nat (h_limit parsed) <
                length (filter (whereMatches (beforeStep parsed (receiverStep auth parsed w)))
                  (messages db))
             then Some (cm_createdAt (hd (page_messages page))) else None)"
    apply -
    apply (rule exI [of _ parsed], rule exI [of _ w])
    apply (intro conjI; assumption)
    done
  let ?S = "sort_key (\<lambda>m. - msg_createdAt m)
      (filter (whereMatches (beforeStep parsed (receiverStep auth parsed w))) (messages db))"
  have "sorted (map (\<lambda>m. - msg_createdAt m) ?S)" by (rule sorted_sort_key)
  then have "sorted (map (\<lambda>m. - msg_createdAt m) (take (nat (h_limit parsed)) ?S))"
    by (simp add: take_map [symmetric] sorted_wrt_take)
  then have "sorted (rev (map msg_createdAt (take (nat (h_limit parsed)) ?S)))"
    by (rule sorted_desc_rev)
  moreover have "map cm_createdAt (page_messages page) =
      rev (map msg_createdAt (take (nat (h_limit parsed)) ?S))"
    by (simp only: a createdAt_mapMessage rev_map)
  ultimately show "sorted (map cm_createdAt (page_messages page))" by simp
next
  let ?ms = "filter (\<lambda>m. msg_roomId m = Some rid) (messages db)"
  assume h: "isUuid rid \<and> rid \<noteq> [] \<and> findRoom db rid = Some room
      \<and> \<not> (room_isPrivate room \<and> room_creatorId room \<noteq> Some (auth_sub auth))
      \<and> length ?ms = 25 \<and> sorted_wrt (<) (map msg_createdAt ?ms)"
  then have u: "isUuid rid" "rid \<noteq> []" and room: "findRoom db rid = Some room"
    "\<not> (room_isPrivate room \<and> room_creatorId room \<noteq> Some (auth_sub auth))"
    and n: "length ?ms = 25" and asc: "sorted_wrt (<) (map msg_createdAt ?ms)"
    by simp_all
  from n have len: "(20::nat) < length ?ms" "length ?ms \<le> 2 * 20" by simp_all
  have lim: "1 \<le> (20::nat)" "(20::nat) \<le> 50" by simp_all
  from two_pages [where isUuid = isUuid and rid = rid and db = db and room = room
      and auth = auth and ms = ?ms and L = 20, OF u room refl asc len lim]
  obtain p1 p2 t where
    p1: "messages_GET isUuid db (Some auth)
        \<lparr>q_roomId = Some rid, q_receiverId = None, q_before = Absent,
         q_limit = Given 20\<rparr> = Inr p1" and
    b1: "page_nextBefore p1 = Some t" and
    p2: "messages_GET isUuid db (Some auth)
        \<lparr>q_roomId = Some rid, q_receiverId = None, q_before = Given t,
         q_limit = Given 20\<rparr> = Inr p2" and
    b2: "page_nextBefore p2 = None" and
    a1: "page_messages p1 = map (mapMessage db) (drop (length ?ms - 20) ?ms)" and
    a2: "page_messages p2 = map (mapMessage db) (take (length ?ms - 20) ?ms)"
    by (elim exE conjE) (simp only: of_nat_numeral)
  have cat: "page_messages p2 @ page_messages p1 = map (mapMessage db) ?ms"
    unfolding a1 a2 by (simp add: map_append [symmetric] del: map_append)
  have l1: "length (page_messages p1) = 20" and l2: "length (page_messages p2) = 5"
    using n by (simp_all add: a1 a2)
  from ascending_pages [OF asc, of db]
  have d: "distinct (page_messages p2 @ page_messages p1)"
    and s: "sorted_wrt (<) (map cm_createdAt (page_messages p2 @ page_messages p1))"
    unfolding cat by simp_all
  from p1 b1 p2 b2 l1 l2 cat d s show "\<exists>p1 p2 t.
          messages_GET isUuid db (Some auth)
            \<lparr>q_roomId = Some rid, q_receiverId = None, q_before = Absent,
             q_limit = Given 20\<rparr> = Inr p1
        \<and> page_nextBefore p1 = Some t
        \<and> messages_GET isUuid db (Some auth)
            \<lparr>q_roomId = Some rid, q_receiverId = None, q_before = Given t,
             q_limit = Given 20\<rparr> = Inr p2
        \<and> page_nextBefore p2 = None
        \<and> length (page_messages p1) = 20
        \<and> length (page_messages p2) = 5
        \<and> page_messages p2 @ page_messages p1 = map (mapMessage db) ?ms
        \<and> distinct (page_messages p2 @ page_messages p1)
        \<and> sorted_wrt (<) (map cm_createdAt (page_messages p2 @ page_messages p1))"
    apply -
    apply (rule exI [of _ p1], rule exI [of _ p2], rule exI [of _ t])
    apply (intro conjI; assumption)
    done
qed

lemma roomStore_room_messages:
  "filter (\<lambda>m. msg_roomId m = Some roomA) (messages roomStore) = map exampleMessage [1..<26]"
proof -
  have "filter (\<lambda>m. msg_roomId m = Some roomA) (map exampleMessage xs) = map exampleMessage xs"
    for xs
    by (induction xs) (simp_all add: exampleMessage_def)
  moreover have "messages roomStore = map exampleMessage [1..<26] @
     [\<lparr>msg_id = str ''dm'', msg_content = str ''psst'', msg_fileUrl = None,
       msg_senderId = bob, msg_roomId = None, msg_receiverId = Some alice,
       msg_createdAt = 7\<rparr>]"
    by (simp add: roomStore_def)
  ultimately show ?thesis
    by (simp only: filter_append) simp
qed

lemma roomStore_ascending:
  "sorted_wrt (<) (map msg_createdAt (map exampleMessage [1..<26]))"
proof -
  have "map msg_createdAt (map exampleMessage xs) = map int xs" for xs
    by (induction xs) (simp_all add: exampleMessage_def)
  moreover have "sorted_wrt (<) (map int [1..<26])"
    by (simp only: sorted_wrt_map of_nat_less_iff sorted_wrt_upt)
  ultimately show ?thesis by (simp only:)
qed

lemma findRoom_roomStore:
  "findRoom roomStore roomA =
     Some \<lparr>room_id = roomA, room_isPrivate = True, room_creatorId = Some alice\<rparr>"
  by (simp add: findRoom_def roomStore_def exampleStore_def)

text \<open>Alice reads the 25 messages of her room in two pages of limit 20.\<close>

theorem history_pagination_witness:
  "\<exists>p1 p2 t.
      messages_GET uuidShape roomStore (Some aliceAuth)
        \<lparr>q_roomId = Some roomA, q_receiverId = None, q_before = Absent,
         q_limit = Given 20\<rparr> = Inr p1
    \<and> page_nextBefore p1 = Some t
    \<and> messages_GET uuidShape roomStore (Some aliceAuth)
        \<lparr>q_roomId = Some roomA, q_receiverId = None, q_before = Given t,
         q_limit = Given 20\<rparr> = Inr p2
    \<and> page_nextBefore p2 = None
    \<and> length (page_messages p1) = 20
    \<and> length (page_messages p2) = 5
    \<and> page_messages p2 @ page_messages p1 =
        map (mapMessage roomStore) (map exampleMessage [1..<26])"
proof -
  have h: "uuidShape roomA \<and> roomA \<noteq> []
      \<and> findRoom roomStore roomA =
          Some \<lparr>room_id = roomA, room_isPrivate = True, room_creatorId = Some alice\<rparr>
      \<and> \<not> (room_isPrivate \<lparr>room_id = roomA, room_isPrivate = True, room_creatorId = Some alice\<rparr>
           \<and> room_creatorId \<lparr>room_id = roomA, room_isPrivate = True, room_creatorId = Some alice\<rparr>
               \<noteq> Some (auth_sub aliceAuth))
      \<and> length (filter (\<lambda>m. msg_roomId m = Some roomA) (messages roomStore)) = 25
      \<and> sorted_wrt (<) (map msg_createdAt
           (filter (\<lambda>m. msg_roomId m = Some roomA) (messages roomStore)))"
    unfolding roomStore_room_messages
    using roomStore_ascending
    by (simp add: uuidShape_ids ids_nonempty findRoom_roomStore aliceAuth_def)
  from history_pagination [where isUuid = uuidShape and db = roomStore and auth = aliceAuth
      and rid = roomA
      and room = "\<lparr>room_id = roomA, room_isPrivate = True, room_creatorId = Some alice\<rparr>"] h
  show ?thesis
    unfolding roomStore_room_messages by blast
qed

section \<open>Rate limiter theorems\<close>

lemma evaluate_opens:
  assumes "\<forall>e. store key = Some e \<longrightarrow> entry_resetAt e \<le> now"
  shows "fst (evaluateRateLimit key options now store) key =
           Some \<lparr>entry_count = 1, entry_resetAt = now + opt_windowMs options\<rparr>"
    and "d_ok (snd (evaluateRateLimit key options now store))"
proof -
  from assms have "cleanupExpiredEntries now store key = None"
    by (auto simp: cleanupExpiredEntries_def split: option.splits)
  then show "fst (evaluateRateLimit key options now store) key =
           Some \<lparr>entry_count = 1, entry_resetAt = now + opt_windowMs options\<rparr>"
    and "d_ok (snd (evaluateRateLimit key options now store))"
    by (simp_all add: evaluateRateLimit_def Let_def)
qed

lemma evaluate_counts:
  assumes "store key = Some \<lparr>entry_count = c, entry_resetAt = r\<rparr>" and "now < r"
  shows "fst (evaluateRateLimit key options now store) key =
           Some \<lparr>entry_count = c + 1, entry_resetAt = r\<rparr>"
    and "d_ok (snd (evaluateRateLimit key options now store)) \<longleftrightarrow> c + 1 \<le> opt_max options"
    and "d_resetAt (snd (evaluateRateLimit key options now store)) = r"
proof -
  from assms have "cleanupExpiredEntries now store key =
      Some \<lparr>entry_count = c, entry_resetAt = r\<rparr>"
    by (simp add: cleanupExpiredEntries_def)
  with assms(2) show "fst (evaluateRateLimit key options now store) key =
           Some \<lparr>entry_count = c + 1, entry_resetAt = r\<rparr>"
    and "d_ok (snd (evaluateRateLimit key options now store)) \<longleftrightarrow> c + 1 \<le> opt_max options"
    and "d_resetAt (snd (evaluateRateLimit key options now store)) = r"
    by (simp_all add: evaluateRateLimit_def Let_def)
qed

lemma enforce_fst:
  "fst (enforceRateLimit req scope options now now2 store) =
     fst (evaluateRateLimit (scope @ str '':'' @ resolveClientIp req) options now store)"
  by (simp add: enforceRateLimit_def Let_def)

lemma enforce_snd:
  "snd (enforceRateLimit req scope options now now2 store) =
     (let decision = snd (evaluateRateLimit (scope @ str '':'' @ resolveClientIp req)
                            options now store)
      in if d_ok decision then None
         else Some \<lparr>retryAfterSeconds = max 1 (- (- (d_resetAt decision - now2) div 1000)),
                    rateLimitLimit = opt_max options,
                    rateLimitReset = d_resetAt decision\<rparr>)"
  by (simp add: enforceRateLimit_def Let_def)

text \<open>Calls inside the window of an entry: each is counted, and admitted up to the maximum.\<close>

lemma calls_in_window:
  assumes "store (scope @ str '':'' @ resolveClientIp req) =
             Some \<lparr>entry_count = c, entry_resetAt = r\<rparr>"
    and "\<forall>(t, t') \<in> set calls. t < r"
    and "c + int (length calls) \<le> opt_max options"
  shows "fst (enforceEach req scope options calls store)
             (scope @ str '':'' @ resolveClientIp req) =
           Some \<lparr>entry_count = c + int (length calls), entry_resetAt = r\<rparr>
       \<and> snd (enforceEach req scope options calls store) = replicate (length calls) None"
  using assms
proof (induction calls arbitrary: store c)
  case Nil
  then show ?case by simp
next
  case (Cons call calls)
  obtain t t' where call: "call = (t, t')" by (cases call)
  let ?key = "scope @ str '':'' @ resolveClientIp req"
  let ?store' = "fst (enforceRateLimit req scope options t t' store)"
  from Cons.prems(2) call have t: "t < r" by simp
  have e: "?store' ?key = Some \<lparr>entry_count = c + 1, entry_resetAt = r\<rparr>"
    unfolding enforce_fst
    using evaluate_counts(1) [where store = store and key = ?key and c = c and r = r
        and now = t and options = options] Cons.prems(1) t
    by simp
  from Cons.prems(3) have "c + 1 \<le> opt_max options" by simp
  then have ok: "d_ok (snd (evaluateRateLimit ?key options t store))"
    using evaluate_counts(2) [where store = store and key = ?key and c = c and r = r
        and now = t and options = options] Cons.prems(1) t
    by simp
  then have admitted: "snd (enforceRateLimit req scope options t t' store) = None"
    by (simp add: enforce_snd Let_def)
  from Cons.prems(2) have rest: "\<forall>(t, t') \<in> set calls. t < r" by simp
  from Cons.prems(3) have "c + 1 + int (length calls) \<le> opt_max options" by simp
  with Cons.IH [of ?store' "c + 1"] e rest
  have "fst (enforceEach req scope options calls ?store') ?key =
          Some \<lparr>entry_count = c + 1 + int (length calls), entry_resetAt = r\<rparr>
      \<and> snd (enforceEach req scope options calls ?store') = replicate (length calls) None"
    by blast
  with call admitted show ?case
    by (simp add: Let_def add.assoc)
qed


lemma ceil_seconds:
  fixes x :: int
  assumes "x \<le> 60000"
  shows "1 \<le> max 1 (- (- x div 1000))" and "max 1 (- (- x div 1000)) \<le> 60"
proof -
  show "1 \<le> max 1 (- (- x div 1000))" by simp
  from assms have "- 60000 \<le> - x" by simp
  then have "- 60000 div 1000 \<le> - x div 1000" by (rule zdiv_mono1) simp
  then show "max 1 (- (- x div 1000)) \<le> 60" by simp
qed

text \<open>
  A window of the register gate: the call that opens it, nine more calls inside it, an
  eleventh inside it, and a call after it has ended.
\<close>

lemma register_window:
  fixes handler :: "'db \<Rightarrow> 'resp \<times> 'db"
  assumes key: "key = str ''auth:register'' @ str '':'' @ resolveClientIp req"
    and fresh: "\<forall>e. store0 key = Some e \<longrightarrow> entry_resetAt e \<le> t1"
    and calls: "length calls = 9" "\<forall>(t, t') \<in> set calls. t < t1 + 60000"
    and t11: "t1 \<le> t11'" "t11 < t1 + 60000"
    and t12: "t1 + 60000 \<le> t12"
    and run10: "enforceEach req (str ''auth:register'') registerOptions ((t1, t1') # calls)
                  store0 = (store10, admitted)"
    and run11: "enforceRateLimit req (str ''auth:register'') registerOptions t11 t11' store10
                  = (store11, rejected)"
    and run12: "enforceRateLimit req (str ''auth:register'') registerOptions t12 t12' store11
                  = (store12, again)"
  shows "admitted = replicate 10 None"
    and "store10 key = Some \<lparr>entry_count = 10, entry_resetAt = t1 + 60000\<rparr>"
    and "\<exists>resp. rejected = Some resp \<and> 1 \<le> retryAfterSeconds resp
           \<and> retryAfterSeconds resp \<le> 60
           \<and> register_POST handler req t11 t11' (store10, db) = (Inl resp, store11, db)"
    and "store11 key = Some \<lparr>entry_count = 11, entry_resetAt = t1 + 60000\<rparr>"
    and "again = None"
    and "store12 key = Some \<lparr>entry_count = 1, entry_resetAt = t12 + 60000\<rparr>"
proof -
  let ?scope = "str ''auth:register''"
  let ?first = "enforceRateLimit req ?scope registerOptions t1 t1' store0"
  have o: "opt_max registerOptions = 10" "opt_windowMs registerOptions = 60000"
    by (simp_all add: registerOptions_def)
  have f1: "fst ?first key = Some \<lparr>entry_count = 1, entry_resetAt = t1 + 60000\<rparr>"
    unfolding enforce_fst key [symmetric]
    using evaluate_opens(1) [where store = store0 and key = key and now = t1
        and options = registerOptions] fresh
    by (simp add: o)
  have "d_ok (snd (evaluateRateLimit key registerOptions t1 store0))"
    using evaluate_opens(2) [where store = store0 and key = key and now = t1
        and options = registerOptions] fresh
    by simp
  then have f2: "snd ?first = None"
    by (simp add: enforce_snd key [symmetric] Let_def)
  have rest: "fst (enforceEach req ?scope registerOptions calls (fst ?first)) key =
          Some \<lparr>entry_count = 1 + int (length calls), entry_resetAt = t1 + 60000\<rparr>
      \<and> snd (enforceEach req ?scope registerOptions calls (fst ?first)) =
          replicate (length calls) None"
    unfolding key
    using calls_in_window [where store = "fst ?first" and scope = ?scope and req = req
        and c = 1 and r = "t1 + 60000" and calls = calls and options = registerOptions]
      f1 calls
    by (simp add: o key)
  from run10 have s10: "store10 = fst (enforceEach req ?scope registerOptions calls (fst ?first))"
    and a10: "admitted = snd ?first # snd (enforceEach req ?scope registerOptions calls (fst ?first))"
    by (simp_all add: Let_def)
  from rest calls(1) show e10: "store10 key = Some \<lparr>entry_count = 10, entry_resetAt = t1 + 60000\<rparr>"
    by (simp add: s10)
  from rest calls(1) f2 have "admitted = None # replicate 9 None"
    by (simp add: a10)
  then show "admitted = replicate 10 None"
    by (simp add: numeral_eq_Suc)
  from run11 have s11: "store11 = fst (enforceRateLimit req ?scope registerOptions t11 t11' store10)"
    and r11: "rejected = snd (enforceRateLimit req ?scope registerOptions t11 t11' store10)"
    by simp_all
  have c11: "fst (evaluateRateLimit key registerOptions t11 store10) key =
        Some \<lparr>entry_count = 10 + 1, entry_resetAt = t1 + 60000\<rparr>"
      "d_ok (snd (evaluateRateLimit key registerOptions t11 store10)) \<longleftrightarrow>
        10 + 1 \<le> opt_max registerOptions"
      "d_resetAt (snd (evaluateRateLimit key registerOptions t11 store10)) = t1 + 60000"
    using evaluate_counts [where store = store10 and key = key and c = 10
        and r = "t1 + 60000" and now = t11 and options = registerOptions] e10 t11(2)
    by simp_all
  from c11(1) show e11: "store11 key = Some \<lparr>entry_count = 11, entry_resetAt = t1 + 60000\<rparr>"
    by (simp add: s11 enforce_fst key [symmetric])
  let ?resp = "\<lparr>retryAfterSeconds = max 1 (- (- (t1 + 60000 - t11') div 1000)),
                rateLimitLimit = 10, rateLimitReset = t1 + 60000\<rparr>"
  from c11(2,3) have rej: "rejected = Some ?resp"
    by (simp add: r11 enforce_snd key [symmetric] Let_def o)
  from t11(1) have "t1 + 60000 - t11' \<le> 60000" by simp
  then have bounds: "1 \<le> retryAfterSeconds ?resp" "retryAfterSeconds ?resp \<le> 60"
    using ceil_seconds [of "t1 + 60000 - t11'"] by simp_all
  from run11 rej have "register_POST handler req t11 t11' (store10, db) = (Inl ?resp, store11, db)"
    by (simp add: register_POST_def Let_def registerOptions_def)
  with rej bounds show "\<exists>resp. rejected = Some resp \<and> 1 \<le> retryAfterSeconds resp
           \<and> retryAfterSeconds resp \<le> 60
           \<and> register_POST handler req t11 t11' (store10, db) = (Inl resp, store11, db)"
    by blast
  from run12 have s12: "store12 = fst (enforceRateLimit req ?scope registerOptions t12 t12' store11)"
    and r12: "again = snd (enforceRateLimit req ?scope registerOptions t12 t12' store11)"
    by simp_all
  from e11 t12 have expired: "\<forall>e. store11 key = Some e \<longrightarrow> entry_resetAt e \<le> t12"
    by simp
  show "store12 key = Some \<lparr>entry_count = 1, entry_resetAt = t12 + 60000\<rparr>"
    unfolding s12 enforce_fst key [symmetric]
    using evaluate_opens(1) [where store = store11 and key = key and now = t12
        and options = registerOptions] expired
    by (simp add: o)
  have "d_ok (snd (evaluateRateLimit key registerOptions t12 store11))"
    using evaluate_opens(2) [where store = store11 and key = key and now = t12
        and options = registerOptions] expired
    by simp
  then show "again = None"
    by (simp add: r12 enforce_snd key [symmetric] Let_def)
qed


text \<open>
  Claim C9, as amended: with the limit of 10 calls per 60000 ms on scope \<open>auth:register\<close>,
  the call that opens a window and the next nine calls from the same address inside the
  window are admitted, and the eleventh is rejected with a retry-after value of at least 1
  and at most 60 seconds, without running the registration and without touching its state.
  The rejected call does change the limiter's own state: it counts as the eleventh call of
  the window. Once the window has ended, the next call from that address is admitted and
  the counter is 1 again.
\<close>

theorem register_rate_limit:
  fixes handler :: "'db \<Rightarrow> 'resp \<times> 'db"
  assumes "key = str ''auth:register'' @ str '':'' @ resolveClientIp req"
    and "\<forall>e. store0 key = Some e \<longrightarrow> entry_resetAt e \<le> t1"
    and "length calls = 9" and "\<forall>(t, t') \<in> set calls. t < t1 + 60000"
    and "t1 \<le> t11'" and "t11 < t1 + 60000"
    and "t1 + 60000 \<le> t12"
    and "enforceEach req (str ''auth:register'') registerOptions ((t1, t1') # calls) store0
           = (store10, admitted)"
    and "enforceRateLimit req (str ''auth:register'') registerOptions t11 t11' store10
           = (store11, rejected)"
    and "enforceRateLimit req (str ''auth:register'') registerOptions t12 t12' store11
           = (store12, again)"
  shows "admitted = replicate 10 None
       \<and> store10 key = Some \<lparr>entry_count = 10, entry_resetAt = t1 + 60000\<rparr>
       \<and> (\<exists>resp. rejected = Some resp \<and> 1 \<le> retryAfterSeconds resp
             \<and> retryAfterSeconds resp \<le> 60
             \<and> register_POST handler req t11 t11' (store10, db) = (Inl resp, store11, db))
       \<and> store11 key = Some \<lparr>entry_count = 11, entry_resetAt = t1 + 60000\<rparr>
       \<and> again = None
       \<and> store12 key = Some \<lparr>entry_count = 1, entry_resetAt = t12 + 60000\<rparr>"
proof (intro conjI)
  show "admitted = replicate 10 None"
    using assms by (rule register_window(1))
  show "store10 key = Some \<lparr>entry_count = 10, entry_resetAt = t1 + 60000\<rparr>"
    using assms by (rule register_window(2))
  show "\<exists>resp. rejected = Some resp \<and> 1 \<le> retryAfterSeconds resp
             \<and> retryAfterSeconds resp \<le> 60
             \<and> register_POST handler req t11 t11' (store10, db) = (Inl resp, store11, db)"
    using assms by (rule register_window(3))
  show "store11 key = Some \<lparr>entry_count = 11, entry_resetAt = t1 + 60000\<rparr>"
    using assms by (rule register_window(4))
  show "again = None"
    using assms by (rule register_window(5))
  show "store12 key = Some \<lparr>entry_count = 1, entry_resetAt = t12 + 60000\<rparr>"
    using assms by (rule register_window(6))
qed

lemma exampleKey:
  "str ''auth:register'' @ str '':'' @ resolveClientIp exampleRequest =
     str ''auth:register:203.0.113.7''"
  by (simp add: resolveClientIp_def exampleRequest_def truthy_def str_def trim_def
      isWhiteSpace_def)

lemma nineCalls_window: "length nineCalls = 9" "\<forall>(t, t') \<in> set nineCalls. t < 0 + 60000"
  by (simp_all add: nineCalls_def)

text \<open>
  Ten calls from 203.0.113.7 between time 0 and time 45000 are admitted; the call at time
  50000 is rejected, and the registration, here a counter of registered users, is not run;
  the call at time 60000 is admitted.
\<close>

theorem register_rate_limit_witness:
  "snd (enforceEach exampleRequest (str ''auth:register'') registerOptions
          ((0, 0) # nineCalls) Map.empty) = replicate 10 None
   \<and> snd (enforceRateLimit exampleRequest (str ''auth:register'') registerOptions
          50000 50001 afterTenCalls) \<noteq> None
   \<and> snd (snd (register_POST (\<lambda>n::nat. (True, Suc n)) exampleRequest 50000 50001
          (afterTenCalls, 5))) = 5
   \<and> snd (enforceRateLimit exampleRequest (str ''auth:register'') registerOptions 60000 60000
          (fst (enforceRateLimit exampleRequest (str ''auth:register'') registerOptions
             50000 50001 afterTenCalls))) = None"
proof -
  let ?scope = "str ''auth:register''"
  let ?s11 = "fst (enforceRateLimit exampleRequest ?scope registerOptions 50000 50001
      afterTenCalls)"
  have fresh: "\<forall>e. Map.empty (str ''auth:register:203.0.113.7'') = Some e \<longrightarrow>
      entry_resetAt e \<le> 0"
    by simp
  have run10: "enforceEach exampleRequest ?scope registerOptions ((0, 0) # nineCalls) Map.empty
      = (afterTenCalls, snd (enforceEach exampleRequest ?scope registerOptions
           ((0, 0) # nineCalls) Map.empty))"
    by (simp add: afterTenCalls_def)
  have run11: "enforceRateLimit exampleRequest ?scope registerOptions 50000 50001 afterTenCalls
      = (?s11, snd (enforceRateLimit exampleRequest ?scope registerOptions 50000 50001
           afterTenCalls))"
    by simp
  have run12: "enforceRateLimit exampleRequest ?scope registerOptions 60000 60000 ?s11
      = (fst (enforceRateLimit exampleRequest ?scope registerOptions 60000 60000 ?s11),
         snd (enforceRateLimit exampleRequest ?scope registerOptions 60000 60000 ?s11))"
    by simp
  have t: "(0::int) \<le> 50001" "(50000::int) < 0 + 60000" "(0::int) + 60000 \<le> 60000"
    by simp_all
  from register_rate_limit [where handler = "\<lambda>n::nat. (True, Suc n)" and db = 5,
      OF exampleKey [symmetric] fresh nineCalls_window t run10 run11 run12]
  show ?thesis by auto
qed

text \<open>
  The claim as the specification words it has the rejected call mutate no state. The
  eleventh call of the window is rejected and raises the counter of the address from 10 to
  11 in the limiter's store.
\<close>

theorem rejected_call_is_counted:
  "snd (enforceRateLimit exampleRequest (str ''auth:register'') registerOptions
          50000 50001 afterTenCalls) \<noteq> None
   \<and> afterTenCalls (str ''auth:register:203.0.113.7'') =
       Some \<lparr>entry_count = 10, entry_resetAt = 60000\<rparr>
   \<and> fst (enforceRateLimit exampleRequest (str ''auth:register'') registerOptions
          50000 50001 afterTenCalls) (str ''auth:register:203.0.113.7'') =
       Some \<lparr>entry_count = 11, entry_resetAt = 60000\<rparr>"
proof -
  let ?scope = "str ''auth:register''"
  let ?s11 = "fst (enforceRateLimit exampleRequest ?scope registerOptions 50000 50001
      afterTenCalls)"
  have fresh: "\<forall>e. Map.empty (str ''auth:register:203.0.113.7'') = Some e \<longrightarrow>
      entry_resetAt e \<le> 0"
    by simp
  have run10: "enforceEach exampleRequest ?scope registerOptions ((0, 0) # nineCalls) Map.empty
      = (afterTenCalls, snd (enforceEach exampleRequest ?scope registerOptions
           ((0, 0) # nineCalls) Map.empty))"
    by (simp add: afterTenCalls_def)
  have run11: "enforceRateLimit exampleRequest ?scope registerOptions 50000 50001 afterTenCalls
      = (?s11, snd (enforceRateLimit exampleRequest ?scope registerOptions 50000 50001
           afterTenCalls))"
    by simp
  have run12: "enforceRateLimit exampleRequest ?scope registerOptions 60000 60000 ?s11
      = (fst (enforceRateLimit exampleRequest ?scope registerOptions 60000 60000 ?s11),
         snd (enforceRateLimit exampleRequest ?scope registerOptions 60000 60000 ?s11))"
    by simp
  have t: "(0::int) \<le> 50001" "(50000::int) < 0 + 60000" "(0::int) + 60000 \<le> 60000"
    by simp_all
  note w2 = register_window(2)
      [OF exampleKey [symmetric] fresh nineCalls_window t run10 run11 run12]
  note w3 = register_window(3) [where handler = "\<lambda>n::nat. (True, Suc n)" and db = 5,
      OF exampleKey [symmetric] fresh nineCalls_window t run10 run11 run12]
  note w4 = register_window(4)
      [OF exampleKey [symmetric] fresh nineCalls_window t run10 run11 run12]
  from w2 w3 w4 show ?thesis by auto
qed

end
